theory Spec2Isabelle
  imports Complex_Main
begin

section \<open>The adsorption workflow of matmethods/vasp/workflows/base/adsorption.py\<close>

text \<open>
  The module builds FireWorks workflows for adsorption on surfaces. Its functions
  call pymatgen and FireWorks, which are not part of the module: their objects are
  modelled as plain data carrying the attributes the module reads, and their
  constructors as datatype constructors recording the arguments they are given.

  Python raises an exception where a name is not bound. Several names that the
  functions read are bound neither by a parameter, nor by an assignment, nor by an
  import of the module. The model therefore evaluates every function in an explicit
  table of such names (\<open>globals\<close>), looks each one up at the place and in the order the
  source does, and raises \<open>NameError\<close> where the table has no binding. The table of the
  module as it is written is \<open>module_globals\<close>.
\<close>

subsection \<open>Exceptions\<close>

datatype py_error =
    NameError string
  | AttributeError string
  | KeyError string
  | IndexError
  | TypeError string
  | ValueError_int string
  | ValueError_max
  | ValueError_miller "string list"
  | DroneError string

text \<open>
  \<open>ValueError_int s\<close> is the error of \<open>int(s)\<close> on a string that is not a decimal
  literal, \<open>ValueError_max\<close> the error of \<open>max([])\<close>, and \<open>ValueError_miller ms\<close> the
  error raised at lines 128-129, whose message lists the strings \<open>ms\<close>.
  \<open>DroneError p\<close> stands for whatever the drone raises on a directory \<open>p\<close> it cannot
  parse.
\<close>

definition bindE :: "'e + 'a \<Rightarrow> ('a \<Rightarrow> 'e + 'b) \<Rightarrow> 'e + 'b" where
  "bindE m f = (case m of Inl e \<Rightarrow> Inl e | Inr x \<Rightarrow> f x)"

definition lookup_name :: "string \<Rightarrow> 'a option \<Rightarrow> py_error + 'a" where
  "lookup_name n b = (case b of None \<Rightarrow> Inl (NameError n) | Some v \<Rightarrow> Inr v)"

definition lookup_class :: "string \<Rightarrow> bool \<Rightarrow> py_error + unit" where
  "lookup_class n b = (if b then Inr () else Inl (NameError n))"

definition getitem :: "('k \<times> 'v) list \<Rightarrow> 'k \<Rightarrow> string \<Rightarrow> py_error + 'v" where
  "getitem d k shown = (case map_of d k of None \<Rightarrow> Inl (KeyError shown) | Some v \<Rightarrow> Inr v)"

definition index0 :: "'a list \<Rightarrow> py_error + 'a" where
  "index0 xs = (case xs of [] \<Rightarrow> Inl IndexError | x # _ \<Rightarrow> Inr x)"

definition index_last :: "'a list \<Rightarrow> py_error + 'a" where
  "index_last xs = (if xs = [] then Inl IndexError else Inr (last xs))"

subsection \<open>The objects of pymatgen and FireWorks\<close>

type_synonym kwargs = "(string \<times> string) list"

record site =
  species_string :: string
  frac_coords :: "real list"
  site_properties :: kwargs

record pm_structure =
  reduced_formula :: string
  sites :: "site list"

record slab =
  miller_index :: "int list"
  slab_sites :: "site list"

datatype molecule = Molecule string "real list list"

text \<open>
  A dict is an association list with distinct keys, in the dict's iteration order.
  The adsorption configuration maps a miller-index string to the molecules to place.
\<close>

type_synonym adsorption_config = "(string \<times> molecule list) list"

datatype transformation =
    SlabTransformation "int list" real real real kwargs
  | InsertSitesTransformation "string list" "real list list"

datatype calc_input = OfStructure pm_structure | OfSlab slab

datatype vasp_input_set =
    MVLSlabSet_bulk pm_structure
  | MVLSlabSet_incar slab kwargs
  | UserInputSet string

text \<open>
  \<open>MVLSlabSet_bulk s\<close> is \<open>MVLSlabSet(s, bulk=True)\<close> and \<open>MVLSlabSet_incar s u\<close> is
  \<open>MVLSlabSet(s, user_incar_settings=u)\<close>. An \<open>OptimizeFW\<close> records its structure and
  the keyword arguments it was given (\<open>None\<close> where the call gives none); a
  \<open>TransmuterFW\<close> records, in the order of the call: name, structure,
  transformations, copy_vasp_outputs, db_file, vasp_cmd, parents, vasp_input_set,
  vasp_input_params.
\<close>

datatype firework =
    OptimizeFW calc_input "vasp_input_set option" "string option" "string option option"
  | TransmuterFW string pm_structure "transformation list" bool "string option" string
      firework string kwargs

fun fw_parents :: "firework \<Rightarrow> firework list" where
  "fw_parents (OptimizeFW _ _ _ _) = []"
| "fw_parents (TransmuterFW _ _ _ _ _ _ p _ _) = [p]"

fun fw_name :: "firework \<Rightarrow> string option" where
  "fw_name (OptimizeFW _ _ _ _) = None"
| "fw_name (TransmuterFW n _ _ _ _ _ _ _ _) = Some n"

record workflow =
  wf_fws :: "firework list"
  wf_name :: string

datatype fw_action = FWAction "firework list"

fun additions :: "fw_action \<Rightarrow> firework list" where
  "additions (FWAction fws) = fws"

subsection \<open>Names the module reads without binding them\<close>

record gen_opts =
  o_max_index :: nat
  o_min_slab_size :: real
  o_min_vacuum_size :: real
  o_max_normal_search :: int
  o_center_slab :: bool

text \<open>
  \<open>generate_decorated_slabs\<close> is called with six arguments at line 121 and with one at
  line 191: the function bound to the name takes the structure and, when given, the
  five options. \<open>AdsorbateSiteFinder\<close> is bound to what
  \<open>AdsorbateSiteFinder(slab, selective_dynamics=True).generate_adsorption_structures(molecule)\<close>
  returns. The two transformation classes are bound or not.
\<close>

record globals =
  g_generate_decorated_slabs :: "(pm_structure \<Rightarrow> gen_opts option \<Rightarrow> slab list) option"
  g_opt_struct :: "pm_structure option"
  g_adsorbate_config :: "adsorption_config option"
  g_SlabTransformation :: bool
  g_shift :: "real option"
  g_slag_gen_config :: "kwargs option"
  g_slab_input_params :: "kwargs option"
  g_AdsorbateSiteFinder :: "(slab \<Rightarrow> molecule \<Rightarrow> pm_structure list) option"
  g_InsertSitesTransformation :: bool
  g_ads_input_params :: "kwargs option"
  g_user_incar_settings :: "kwargs option"
  g_vasp_cmd :: "string option"
  g_db_file :: "string option option"
  g_incar_update :: "kwargs option"
  g_add_modify_incar :: "(firework list \<Rightarrow> kwargs \<Rightarrow> firework list) option"

definition module_globals :: globals where
  "module_globals = \<lparr>
     g_generate_decorated_slabs = None, g_opt_struct = None, g_adsorbate_config = None,
     g_SlabTransformation = False, g_shift = None, g_slag_gen_config = None,
     g_slab_input_params = None, g_AdsorbateSiteFinder = None,
     g_InsertSitesTransformation = False, g_ads_input_params = None,
     g_user_incar_settings = None, g_vasp_cmd = None, g_db_file = None,
     g_incar_update = None, g_add_modify_incar = None \<rparr>"

subsection \<open>Strings of miller indices\<close>

definition digit_char :: "nat \<Rightarrow> char" where
  "digit_char d = ''0123456789'' ! d"

function str_nat :: "nat \<Rightarrow> string" where
  "str_nat n = (if n < 10 then [digit_char n] else str_nat (n div 10) @ [digit_char (n mod 10)])"
  by pat_completeness auto
termination
  by (relation "measure id") auto

declare str_nat.simps [simp del]

definition str_int :: "int \<Rightarrow> string" where
  "str_int i = (if i < 0 then CHR ''-'' # str_nat (nat (- i)) else str_nat (nat i))"

text \<open>\<open>''.join([str(i) for i in slab.miller_index])\<close>, lines 124 and 132.\<close>

definition mi_string_of :: "slab \<Rightarrow> string" where
  "mi_string_of s = concat (map str_int (miller_index s))"

text \<open>
  \<open>int(i)\<close> for a one-character string \<open>i\<close>: the decimal digits (codes 48 to 57)
  convert, every other character of the 8-bit range raises \<open>ValueError\<close>.
\<close>

definition int_char :: "char \<Rightarrow> py_error + nat" where
  "int_char c =
     (let n = (of_char c :: nat)
      in if 48 \<le> n \<and> n \<le> 57 then Inr (n - 48) else Inl (ValueError_int [c]))"

fun int_chars :: "string \<Rightarrow> py_error + nat list" where
  "int_chars [] = Inr []"
| "int_chars (c # cs) =
     bindE (int_char c) (\<lambda>d. bindE (int_chars cs) (\<lambda>ds. Inr (d # ds)))"

definition py_max :: "nat list \<Rightarrow> py_error + nat" where
  "py_max ds = (case ds of [] \<Rightarrow> Inl ValueError_max | d # ds' \<Rightarrow> Inr (fold max ds' d))"

text \<open>Line 120: \<open>max([int(i) for i in ''.join(adsorption_config.keys())])\<close>.\<close>

definition max_index_of :: "adsorption_config \<Rightarrow> py_error + nat" where
  "max_index_of cfg = bindE (int_chars (concat (map fst cfg))) py_max"

subsection \<open>get_wf_adsorption, lines 85-171\<close>

record wf_args =
  a_structure :: pm_structure
  a_adsorption_config :: adsorption_config
  a_vasp_input_set :: "vasp_input_set option"
  a_min_slab_size :: real
  a_min_vacuum_size :: real
  a_max_normal_search :: int
  a_center_slab :: bool
  a_vasp_cmd :: string
  a_db_file :: "string option"

text \<open>
  An exception leaves the function with the list \<open>fws\<close> as it stood when it was
  raised: the failure of a run is the pair of the exception and that list.
\<close>

type_synonym 'a outcome = "(py_error \<times> firework list) + 'a"

definition at_fws :: "firework list \<Rightarrow> py_error + 'a \<Rightarrow> 'a outcome" where
  "at_fws fws m = (case m of Inl e \<Rightarrow> Inl (e, fws) | Inr x \<Rightarrow> Inr x)"

text \<open>
  Lines 152-153, the list comprehension over the sites of the slab; the subscript
  raises \<open>KeyError\<close> at the first site without the key.
\<close>

fun ads_sites_of :: "site list \<Rightarrow> py_error + site list" where
  "ads_sites_of [] = Inr []"
| "ads_sites_of (s # ss) =
     bindE (getitem (site_properties s) ''surface_properties'' ''surface_properties'')
       (\<lambda>v. bindE (ads_sites_of ss)
         (\<lambda>rest. Inr (if v = ''adsorbate'' then s # rest else rest)))"

text \<open>
  Lines 151-168, the loop over the adsorption structures of one molecule. The
  firework appended is built from \<open>trans\<close>, not from \<open>ads_trans\<close>, and from the input
  structure, not from \<open>struct\<close>.
\<close>

fun struct_loop ::
  "globals \<Rightarrow> wf_args \<Rightarrow> slab \<Rightarrow> transformation list \<Rightarrow> pm_structure list \<Rightarrow>
   firework list \<Rightarrow> (firework list) outcome" where
  "struct_loop g a sl transf [] fws = Inr fws"
| "struct_loop g a sl transf (struct # rest) fws =
     bindE (at_fws fws (ads_sites_of (slab_sites sl))) (\<lambda>ads_sites.
     bindE (at_fws fws (lookup_class ''InsertSitesTransformation''
                          (g_InsertSitesTransformation g))) (\<lambda>_.
     let add_adsorbate_trans =
           InsertSitesTransformation (map species_string ads_sites)
             (map frac_coords ads_sites);
         ads_trans = transf @ [add_adsorbate_trans]
     in
     bindE (at_fws fws (index0 fws)) (\<lambda>parent.
     bindE (at_fws fws (lookup_name ''ads_input_params'' (g_ads_input_params g))) (\<lambda>p.
     struct_loop g a sl transf rest
       (fws @ [TransmuterFW ''slab calculation'' (a_structure a) transf True (a_db_file a)
                 (a_vasp_cmd a) parent ''MVLSlabSet'' p])))))"

text \<open>Lines 149-150, the loop over the molecules configured for the slab.\<close>

fun molecule_loop ::
  "globals \<Rightarrow> wf_args \<Rightarrow> (molecule \<Rightarrow> pm_structure list) \<Rightarrow> slab \<Rightarrow>
   transformation list \<Rightarrow> molecule list \<Rightarrow> firework list \<Rightarrow> (firework list) outcome" where
  "molecule_loop g a asf sl transf [] fws = Inr fws"
| "molecule_loop g a asf sl transf (m # rest) fws =
     bindE (struct_loop g a sl transf (asf m) fws) (molecule_loop g a asf sl transf rest)"

text \<open>Lines 131-168, the loop over the slabs.\<close>

fun slab_loop ::
  "globals \<Rightarrow> wf_args \<Rightarrow> slab list \<Rightarrow> firework list \<Rightarrow> (firework list) outcome" where
  "slab_loop g a [] fws = Inr fws"
| "slab_loop g a (sl # rest) fws =
     (let mi_string = mi_string_of sl in
      bindE (at_fws fws (lookup_name ''adsorbate_config'' (g_adsorbate_config g))) (\<lambda>cfg.
      if mi_string \<in> set (map fst cfg) then
        bindE (at_fws fws (lookup_class ''SlabTransformation'' (g_SlabTransformation g))) (\<lambda>_.
        bindE (at_fws fws (lookup_name ''shift'' (g_shift g))) (\<lambda>shift.
        bindE (at_fws fws (lookup_name ''slag_gen_config'' (g_slag_gen_config g))) (\<lambda>sgc.
        let transf = [SlabTransformation (miller_index sl) (a_min_slab_size a)
                       (a_min_vacuum_size a) shift sgc] in
        bindE (at_fws fws (index0 fws)) (\<lambda>parent.
        bindE (at_fws fws (lookup_name ''slab_input_params'' (g_slab_input_params g))) (\<lambda>sip.
        let fws1 = fws @ [TransmuterFW ''slab calculation'' (a_structure a) transf True
                            (a_db_file a) (a_vasp_cmd a) parent ''MVLSlabSet'' sip] in
        bindE (at_fws fws1 (lookup_name ''AdsorbateSiteFinder'' (g_AdsorbateSiteFinder g)))
          (\<lambda>asf.
        bindE (at_fws fws1 (getitem cfg mi_string mi_string)) (\<lambda>mols.
        bindE (molecule_loop g a (asf sl) sl transf mols fws1) (slab_loop g a rest))))))))
      else slab_loop g a rest fws))"

text \<open>Lines 126-129: the first key that is no miller-index string of a slab raises.\<close>

definition check_keys :: "string list \<Rightarrow> string list \<Rightarrow> py_error + unit" where
  "check_keys keys mi_strings =
     (if \<forall>key \<in> set keys. key \<in> set mi_strings then Inr ()
      else Inl (ValueError_miller mi_strings))"

text \<open>The five options passed on to the generator at lines 121-123.\<close>

definition gen_opts_of :: "wf_args \<Rightarrow> nat \<Rightarrow> gen_opts" where
  "gen_opts_of a max_index =
     \<lparr> o_max_index = max_index, o_min_slab_size = a_min_slab_size a,
       o_min_vacuum_size = a_min_vacuum_size a,
       o_max_normal_search = a_max_normal_search a,
       o_center_slab = a_center_slab a \<rparr>"

text \<open>The root firework, lines 117-118.\<close>

definition root_fw :: "wf_args \<Rightarrow> firework" where
  "root_fw a =
     OptimizeFW (OfStructure (a_structure a))
       (Some (case a_vasp_input_set a of Some u \<Rightarrow> u
              | None \<Rightarrow> MVLSlabSet_bulk (a_structure a)))
       (Some (a_vasp_cmd a)) (Some (a_db_file a))"

text \<open>
  Line 115 is in \<open>root_fw\<close>: a vasp_input_set that is given is taken (an input set
  object is truthy), otherwise the default is built.
\<close>

definition get_wf_adsorption :: "globals \<Rightarrow> wf_args \<Rightarrow> workflow outcome" where
  "get_wf_adsorption g a =
     (let fws = [root_fw a] in
      bindE (at_fws fws (max_index_of (a_adsorption_config a))) (\<lambda>max_index.
      bindE (at_fws fws (lookup_name ''generate_decorated_slabs''
                           (g_generate_decorated_slabs g))) (\<lambda>gen.
      bindE (at_fws fws (lookup_name ''opt_struct'' (g_opt_struct g))) (\<lambda>opt_struct.
      let slabs = gen opt_struct (Some (gen_opts_of a max_index));
          mi_strings = map mi_string_of slabs
      in
      bindE (at_fws fws (lookup_name ''adsorbate_config'' (g_adsorbate_config g))) (\<lambda>cfg.
      bindE (at_fws fws (check_keys (map fst cfg) mi_strings)) (\<lambda>_.
      bindE (slab_loop g a slabs fws) (\<lambda>fws'.
      Inr \<lparr> wf_fws = fws',
            wf_name = reduced_formula (a_structure a) @ '':'' @ ''elastic constants'' \<rparr>)))))))"

subsection \<open>AddAdsorptionTasks.run_task, lines 183-212\<close>

text \<open>
  A \<open>calc_locs\<close> entry is a dict; the spec of a firework may lack the key
  \<open>calc_locs\<close>. The task object is a dict of its parameters, which the body never
  reads; it reads the attribute \<open>spec\<close>, which the object has or not.
\<close>

record fw_spec =
  calc_locs :: "kwargs list option"

record task_obj =
  attr_spec :: "fw_spec option"

text \<open>
  \<open>drone\<close> is what lines 186-189 compute from a directory: the structure of the
  first entry of \<open>calcs_reversed\<close> in the document the drone assimilates there.
\<close>

type_synonym drone = "string \<Rightarrow> pm_structure option"

definition run_drone :: "drone \<Rightarrow> string \<Rightarrow> py_error + pm_structure" where
  "run_drone d p = (case d p of None \<Rightarrow> Inl (DroneError p) | Some st \<Rightarrow> Inr st)"

text \<open>Lines 203-206.\<close>

fun task_struct_loop ::
  "globals \<Rightarrow> vasp_input_set \<Rightarrow> pm_structure list \<Rightarrow> firework list \<Rightarrow>
   py_error + firework list" where
  "task_struct_loop g vis [] fws = Inr fws"
| "task_struct_loop g vis (struct # rest) fws =
     bindE (lookup_name ''vasp_cmd'' (g_vasp_cmd g)) (\<lambda>vasp_cmd.
     bindE (lookup_name ''db_file'' (g_db_file g)) (\<lambda>db_file.
     task_struct_loop g vis rest
       (fws @ [OptimizeFW (OfStructure struct) (Some vis) (Some vasp_cmd) (Some db_file)])))"

text \<open>Lines 201-202.\<close>

fun task_molecule_loop ::
  "globals \<Rightarrow> vasp_input_set \<Rightarrow> (molecule \<Rightarrow> pm_structure list) \<Rightarrow> molecule list \<Rightarrow>
   firework list \<Rightarrow> py_error + firework list" where
  "task_molecule_loop g vis asf [] fws = Inr fws"
| "task_molecule_loop g vis asf (m # rest) fws =
     bindE (task_struct_loop g vis (asf m) fws) (task_molecule_loop g vis asf rest)"

text \<open>Lines 193-206.\<close>

fun task_slab_loop :: "globals \<Rightarrow> slab list \<Rightarrow> firework list \<Rightarrow> py_error + firework list" where
  "task_slab_loop g [] fws = Inr fws"
| "task_slab_loop g (sl # rest) fws =
     (let mi_string = mi_string_of sl in
      bindE (lookup_name ''adsorbate_config'' (g_adsorbate_config g)) (\<lambda>cfg.
      if mi_string \<in> set (map fst cfg) then
        bindE (lookup_name ''user_incar_settings'' (g_user_incar_settings g)) (\<lambda>uis.
        let vis = MVLSlabSet_incar sl uis;
            fws1 = fws @ [OptimizeFW (OfSlab sl) (Some vis) None None] in
        bindE (lookup_name ''AdsorbateSiteFinder'' (g_AdsorbateSiteFinder g)) (\<lambda>asf.
        bindE (getitem cfg mi_string mi_string) (\<lambda>mols.
        bindE (task_molecule_loop g vis (asf sl) mols fws1) (task_slab_loop g rest))))
      else task_slab_loop g rest fws))"

text \<open>
  The body of \<open>run_task\<close>: lines 184-189 read the optimized structure at the last
  calculation location, lines 191-212 expand it. \<open>incar_update\<close> is truthy when it
  is a dict with an entry.
\<close>

definition optimized_structure :: "drone \<Rightarrow> task_obj \<Rightarrow> py_error + pm_structure" where
  "optimized_structure d self =
     bindE (case attr_spec self of None \<Rightarrow> Inl (AttributeError ''spec'')
            | Some sp \<Rightarrow> Inr sp) (\<lambda>sp.
     bindE (case calc_locs sp of None \<Rightarrow> Inl (KeyError ''calc_locs'')
            | Some ls \<Rightarrow> Inr ls) (\<lambda>locs.
     bindE (index_last locs) (\<lambda>loc.
     bindE (getitem loc ''path'' ''path'') (\<lambda>optimize_loc.
     run_drone d optimize_loc))))"

definition run_task_body :: "globals \<Rightarrow> drone \<Rightarrow> task_obj \<Rightarrow> py_error + fw_action" where
  "run_task_body g d self =
     bindE (optimized_structure d self) (\<lambda>opt_struct.
     bindE (lookup_name ''generate_decorated_slabs'' (g_generate_decorated_slabs g)) (\<lambda>gen.
     bindE (task_slab_loop g (gen opt_struct None) []) (\<lambda>fws.
     bindE (lookup_name ''incar_update'' (g_incar_update g)) (\<lambda>incar_update.
     if incar_update \<noteq> [] then
       bindE (lookup_name ''add_modify_incar'' (g_add_modify_incar g)) (\<lambda>add_modify_incar.
       Inr (FWAction (add_modify_incar fws incar_update)))
     else Inr (FWAction fws)))))"

text \<open>
  \<open>def run_task(self)\<close> takes no argument besides \<open>self\<close>: a call that passes
  positional arguments raises \<open>TypeError\<close> before the body runs.
\<close>

definition AddAdsorptionTasks_run_task ::
  "globals \<Rightarrow> drone \<Rightarrow> task_obj \<Rightarrow> fw_spec list \<Rightarrow> py_error + fw_action" where
  "AddAdsorptionTasks_run_task g d self args =
     (if args = [] then run_task_body g d self
      else Inl (TypeError ''run_task() takes 1 positional argument''))"

text \<open>
  FireWorks runs a task as \<open>run_task(fw_spec)\<close> on the task object, the signature that
  \<open>PassSlabEnergy\<close> (line 42) and \<open>AnalyzeAdsorption\<close> (line 56) declare.
\<close>

definition fireworks_run :: "('t \<Rightarrow> fw_spec list \<Rightarrow> 'r) \<Rightarrow> 't \<Rightarrow> fw_spec \<Rightarrow> 'r" where
  "fireworks_run run_task self sp = run_task self [sp]"

subsection \<open>PassSlabEnergy.run_task and AnalyzeAdsorption.run_task, lines 42-82\<close>

text \<open>
  The places a task can persist a document to: the files of the working directory
  and the \<open>adsorption\<close> collection of the database.
\<close>

record sinks =
  files :: "string \<rightharpoonup> string"
  adsorption_collection :: "string list"

text \<open>
  A \<open>run_task\<close> returns a Python value: an \<open>FWAction\<close> or \<open>None\<close>. Both methods take
  \<open>self\<close> and \<open>fw_spec\<close>.
\<close>

definition PassSlabEnergy_run_task ::
  "task_obj \<Rightarrow> fw_spec list \<Rightarrow> sinks \<Rightarrow> (py_error + fw_action option) \<times> sinks" where
  "PassSlabEnergy_run_task self args s =
     (if length args = 1 then (Inr (Some (FWAction [])), s)
      else (Inl (TypeError ''run_task() takes 2 positional arguments''), s))"

text \<open>
  The body of \<open>AnalyzeAdsorption.run_task\<close> is \<open>pass\<close> followed by one string literal
  (lines 58-82), which holds the statements that would read the optimized
  structure and write the document; an expression statement has no effect, and
  the function falls off its end, returning \<open>None\<close>. The task carries \<open>structure\<close>
  and \<open>db_file\<close>.
\<close>

record analyze_obj = task_obj +
  p_structure :: pm_structure
  p_db_file :: "string option"

definition AnalyzeAdsorption_run_task ::
  "analyze_obj \<Rightarrow> fw_spec list \<Rightarrow> sinks \<Rightarrow> (py_error + fw_action option) \<times> sinks" where
  "AnalyzeAdsorption_run_task self args s =
     (if length args = 1 then (Inr None, s)
      else (Inl (TypeError ''run_task() takes 2 positional arguments''), s))"

subsection \<open>The size of an expansion\<close>

text \<open>
  The molecules configured for a miller-index string, and what one slab
  contributes to the expansion according to the specification: one slab task and one task per adsorption structure
  of each configured molecule when its miller-index string is a key, nothing
  otherwise. \<open>claimed_delta_size\<close> follows the words of the specification for the
  size of the delta: the number of matching slabs plus the number of pairs of a
  matching slab and an adsorbate placement on it.
\<close>

definition config_molecules :: "adsorption_config \<Rightarrow> string \<Rightarrow> molecule list" where
  "config_molecules cfg k = (case map_of cfg k of None \<Rightarrow> [] | Some ms \<Rightarrow> ms)"

definition slab_contribution ::
  "adsorption_config \<Rightarrow> (slab \<Rightarrow> molecule \<Rightarrow> pm_structure list) \<Rightarrow> slab \<Rightarrow> nat" where
  "slab_contribution cfg finder sl =
     (if mi_string_of sl \<in> set (map fst cfg)
      then 1 + sum_list (map (\<lambda>m. length (finder sl m)) (config_molecules cfg (mi_string_of sl)))
      else 0)"

definition placements ::
  "adsorption_config \<Rightarrow> (slab \<Rightarrow> molecule \<Rightarrow> pm_structure list) \<Rightarrow> slab \<Rightarrow>
   (slab \<times> pm_structure) list" where
  "placements cfg finder sl =
     map (Pair sl) (concat (map (finder sl) (config_molecules cfg (mi_string_of sl))))"

definition claimed_delta_size ::
  "adsorption_config \<Rightarrow> (slab \<Rightarrow> molecule \<Rightarrow> pm_structure list) \<Rightarrow> slab list \<Rightarrow> nat" where
  "claimed_delta_size cfg finder slabs =
     (let matching = filter (\<lambda>sl. mi_string_of sl \<in> set (map fst cfg)) slabs
      in length matching + length (concat (map (placements cfg finder) matching)))"

text \<open>A derived firework: a slab calculation whose only parent is the given firework.\<close>

definition derived_of :: "firework \<Rightarrow> firework \<Rightarrow> bool" where
  "derived_of r0 fw \<longleftrightarrow> fw_parents fw = [r0] \<and> fw_name fw = Some ''slab calculation''"

subsection \<open>A silicon run\<close>

text \<open>
  The call of lines 254-257: silicon, carbon monoxide on the (111) surface. In
  \<open>patched_globals\<close> every name the functions read is bound: the generator returns
  a (111) and a (100) slab, the site finder two placements per molecule.
\<close>

definition Si :: pm_structure where
  "Si = \<lparr> reduced_formula = ''Si'', sites = [] \<rparr>"

definition co :: molecule where
  "co = Molecule ''CO'' [[0, 0, 0], [0, 0, 19 / 10]]"

definition top_site :: site where
  "top_site = \<lparr> species_string = ''X'', frac_coords = [0, 0, 1],
     site_properties = [(''surface_properties'', ''adsorbate'')] \<rparr>"

definition bulk_site :: site where
  "bulk_site = \<lparr> species_string = ''Si'', frac_coords = [0, 0, 0],
     site_properties = [(''surface_properties'', ''subsurface'')] \<rparr>"

definition slab_111 :: slab where
  "slab_111 = \<lparr> miller_index = [1, 1, 1], slab_sites = [bulk_site, top_site] \<rparr>"

definition slab_100 :: slab where
  "slab_100 = \<lparr> miller_index = [1, 0, 0], slab_sites = [bulk_site] \<rparr>"

definition Si_CO_1 :: pm_structure where
  "Si_CO_1 = \<lparr> reduced_formula = ''Si(CO)'', sites = [bulk_site] \<rparr>"

definition Si_CO_2 :: pm_structure where
  "Si_CO_2 = \<lparr> reduced_formula = ''Si(CO)'', sites = [bulk_site, bulk_site] \<rparr>"

definition main_args :: wf_args where
  "main_args = \<lparr> a_structure = Si, a_adsorption_config = [(''111'', [co])],
     a_vasp_input_set = None, a_min_slab_size = 7, a_min_vacuum_size = 12,
     a_max_normal_search = 1, a_center_slab = True, a_vasp_cmd = ''vasp'',
     a_db_file = None \<rparr>"

definition two_slabs :: "pm_structure \<Rightarrow> gen_opts option \<Rightarrow> slab list" where
  "two_slabs st opts = [slab_111, slab_100]"

definition two_placements :: "slab \<Rightarrow> molecule \<Rightarrow> pm_structure list" where
  "two_placements sl m = [Si_CO_1, Si_CO_2]"

definition patched_globals :: globals where
  "patched_globals = \<lparr>
     g_generate_decorated_slabs = Some two_slabs,
     g_opt_struct = Some Si,
     g_adsorbate_config = Some [(''111'', [co])],
     g_SlabTransformation = True, g_shift = Some 0, g_slag_gen_config = Some [],
     g_slab_input_params = Some [], g_AdsorbateSiteFinder = Some two_placements,
     g_InsertSitesTransformation = True, g_ads_input_params = Some [],
     g_user_incar_settings = Some [], g_vasp_cmd = Some ''vasp'', g_db_file = Some None,
     g_incar_update = Some [], g_add_modify_incar = None \<rparr>"

definition Si_root :: firework where
  "Si_root = OptimizeFW (OfStructure Si) (Some (MVLSlabSet_bulk Si)) (Some ''vasp'') (Some None)"

definition Si_derived :: firework where
  "Si_derived = TransmuterFW ''slab calculation'' Si [SlabTransformation [1, 1, 1] 7 12 0 []]
     True None ''vasp'' Si_root ''MVLSlabSet'' []"

definition Si_workflow :: workflow where
  "Si_workflow = \<lparr> wf_fws = [Si_root, Si_derived, Si_derived, Si_derived],
     wf_name = ''Si:elastic constants'' \<rparr>"

subsection \<open>Configurations whose keys are decimal\<close>

text \<open>
  The keys of the configuration, joined, are a non-empty string of decimal digits:
  the case in which line 120 computes a maximum. Miller indices can be negative,
  and the string of the index (1, -1, 0) is \<open>1-10\<close>.
\<close>

definition decimal_keys :: "adsorption_config \<Rightarrow> bool" where
  "decimal_keys cfg \<longleftrightarrow>
     concat (map fst cfg) \<noteq> []
     \<and> list_all (\<lambda>c. 48 \<le> (of_char c :: nat) \<and> (of_char c :: nat) \<le> 57) (concat (map fst cfg))"

fun is_ValueError :: "py_error \<Rightarrow> bool" where
  "is_ValueError (ValueError_int _) = True"
| "is_ValueError ValueError_max = True"
| "is_ValueError _ = False"

definition dash_args :: wf_args where
  "dash_args = main_args \<lparr> a_adsorption_config := [(''1-10'', [co])] \<rparr>"

subsection \<open>A run of the tasks\<close>

text \<open>
  A firework spec with two calculation locations, the later one the optimization;
  a drone that finds silicon there; a task object without and one with an
  attribute \<open>spec\<close>; an analysis task without \<open>db_file\<close>; and empty sinks.
  \<open>args_110\<close> asks for the (110) surface, which \<open>two_slabs\<close> does not produce.
\<close>

definition opt_spec :: fw_spec where
  "opt_spec = \<lparr> calc_locs = Some [[(''name'', ''bulk''), (''path'', ''/calc/bulk'')],
                                  [(''name'', ''opt''), (''path'', ''/calc/opt'')]] \<rparr>"

definition Si_drone :: drone where
  "Si_drone p = (if p = ''/calc/opt'' then Some Si else None)"

definition bare_task :: task_obj where
  "bare_task = \<lparr> attr_spec = None \<rparr>"

definition spec_task :: task_obj where
  "spec_task = \<lparr> attr_spec = Some opt_spec \<rparr>"

definition analyze_Si :: analyze_obj where
  "analyze_Si = \<lparr> attr_spec = None, p_structure = Si, p_db_file = None \<rparr>"

definition no_documents :: sinks where
  "no_documents = \<lparr> files = Map.empty, adsorption_collection = [] \<rparr>"

definition args_110 :: wf_args where
  "args_110 = main_args \<lparr> a_adsorption_config := [(''110'', [co])] \<rparr>"

subsection \<open>Readiness of a firework\<close>

text \<open>
  Modelled from the spec: the scheduler that decides when a firework may run is
  FireWorks, not this module. Section 3 of the specification gives the rule: the
  dependencies of a node are the nodes that must reach \<open>Completed\<close> before the node
  is \<open>Ready\<close>. The dependencies of a firework are its parents.
\<close>

definition may_be_ready :: "firework set \<Rightarrow> firework \<Rightarrow> bool" where
  "may_be_ready completed fw \<longleftrightarrow> set (fw_parents fw) \<subseteq> completed"

subsection \<open>The silicon expansion\<close>

text \<open>The fireworks that the expanding task builds for the silicon run.\<close>

definition Si_slab_fw :: firework where
  "Si_slab_fw = OptimizeFW (OfSlab slab_111) (Some (MVLSlabSet_incar slab_111 [])) None None"

definition Si_ads_fw :: "pm_structure \<Rightarrow> firework" where
  "Si_ads_fw st = OptimizeFW (OfStructure st) (Some (MVLSlabSet_incar slab_111 []))
     (Some ''vasp'') (Some None)"

section \<open>The dynamic join of the specification\<close>

text \<open>
  Modelled from the spec: the module builds fireworks and hands them to FireWorks;
  no scheduler, graph or aggregation node is in its source, and
  \<open>get_wf_adsorption\<close> adds no \<open>AnalyzeAdsorption\<close> firework. Sections 3, 4.1, 4.2,
  4.3 and 5 of the specification describe the graph, the scheduler and the
  aggregation task; the definitions of this section follow their words. All
  mutation is mutually exclusive (section 5), so a run is a sequence of atomic
  events.
\<close>

text \<open>Modelled from the spec: the states of a node, section 3.\<close>

datatype node_state = Pending | Ready | Running | Completed | Failed

text \<open>
  Modelled from the spec: a TaskNode, section 3, without its action and inputs:
  its id, its dependencies, its state and the node whose delta produced it.
\<close>

record task_node =
  node_id :: nat
  dependencies :: "nat list"
  state :: node_state
  spawned_by :: "nat option"

text \<open>Modelled from the spec: the nodes of a WorkflowGraph, a table indexed by id.\<close>

type_synonym workflow_graph = "task_node list"

text \<open>Modelled from the spec: the errors of \<open>insert_delta\<close>, section 4.1.\<close>

datatype graph_error = CycleDetected | UnknownDependency | NodeIdCollision

text \<open>Modelled from the spec: the node with the given id is in the given state.\<close>

definition has_state :: "workflow_graph \<Rightarrow> nat \<Rightarrow> node_state \<Rightarrow> bool" where
  "has_state G n st \<longleftrightarrow> (\<exists>x \<in> set G. node_id x = n \<and> state x = st)"

text \<open>Modelled from the spec: a transition of one node to a state.\<close>

definition set_node :: "nat \<Rightarrow> node_state \<Rightarrow> task_node \<Rightarrow> task_node" where
  "set_node n st x = (if node_id x = n then x \<lparr> state := st \<rparr> else x)"

definition set_state :: "nat \<Rightarrow> node_state \<Rightarrow> workflow_graph \<Rightarrow> workflow_graph" where
  "set_state n st G = map (set_node n st) G"

text \<open>
  Modelled from the spec: the dependency edges and the \<open>spawned_by\<close> edges, from the
  earlier node to the later one.
\<close>

definition dep_edges :: "workflow_graph \<Rightarrow> (nat \<times> nat) list" where
  "dep_edges G = concat (map (\<lambda>x. map (\<lambda>d. (d, node_id x)) (dependencies x)) G)"

definition spawn_edges :: "workflow_graph \<Rightarrow> (nat \<times> nat) list" where
  "spawn_edges G =
     concat (map (\<lambda>x. case spawned_by x of None \<Rightarrow> [] | Some p \<Rightarrow> [(p, node_id x)]) G)"

text \<open>
  Modelled from the spec: \<open>descendants_of\<close>, section 4.1, the transitive closure over
  \<open>spawned_by\<close> and dependency edges, and "spawned by (transitively) the root",
  section 4.3, the closure over \<open>spawned_by\<close> alone.
\<close>

definition is_descendant :: "workflow_graph \<Rightarrow> nat \<Rightarrow> nat \<Rightarrow> bool" where
  "is_descendant G r n \<longleftrightarrow> (r, n) \<in> (set (dep_edges G @ spawn_edges G))\<^sup>+"

definition spawned_from :: "workflow_graph \<Rightarrow> nat \<Rightarrow> nat \<Rightarrow> bool" where
  "spawned_from G r n \<longleftrightarrow> (r, n) \<in> (set (spawn_edges G))\<^sup>+"

text \<open>
  Modelled from the spec: the frontier-closed predicate, section 4.3: (a) the root
  and all nodes currently known to be descendants of the root are \<open>Completed\<close>, and
  (b) no \<open>Running\<close> or \<open>Pending\<close> node declares itself spawned by (transitively)
  the root. The aggregation task depends on the root, so it is a descendant of
  the root itself; it is not among the nodes it waits for.
\<close>

definition frontier_closed :: "workflow_graph \<Rightarrow> nat \<Rightarrow> nat \<Rightarrow> bool" where
  "frontier_closed G r ag \<longleftrightarrow>
     (\<forall>x \<in> set G. (node_id x = r \<or> is_descendant G r (node_id x)) \<and> node_id x \<noteq> ag
        \<longrightarrow> state x = Completed)
     \<and> (\<forall>x \<in> set G. spawned_from G r (node_id x)
        \<longrightarrow> state x \<noteq> Running \<and> state x \<noteq> Pending)"

text \<open>
  Modelled from the spec: readiness. A node is \<open>Ready\<close> once all its dependencies are
  \<open>Completed\<close> (section 3); the aggregation task is \<open>Ready\<close> once the frontier is
  closed instead (section 4.3). \<open>refresh\<close> re-evaluates every \<open>Pending\<close> node.
\<close>

definition deps_completed :: "workflow_graph \<Rightarrow> task_node \<Rightarrow> bool" where
  "deps_completed G x \<longleftrightarrow> (\<forall>d \<in> set (dependencies x). has_state G d Completed)"

definition refresh_node :: "nat \<Rightarrow> nat \<Rightarrow> workflow_graph \<Rightarrow> task_node \<Rightarrow> task_node" where
  "refresh_node r ag G x =
     (if state x = Pending
         \<and> (if node_id x = ag then frontier_closed G r ag else deps_completed G x)
      then x \<lparr> state := Ready \<rparr> else x)"

definition refresh :: "nat \<Rightarrow> nat \<Rightarrow> workflow_graph \<Rightarrow> workflow_graph" where
  "refresh r ag G = map (refresh_node r ag G) G"

text \<open>
  Modelled from the spec: \<open>insert_delta\<close>, section 4.1. A delta lists the new ids
  with their dependencies. New nodes start \<open>Pending\<close>, spawned by the origin; nodes
  whose dependencies are satisfied move to \<open>Ready\<close> in the same update.
\<close>

definition new_nodes :: "nat \<Rightarrow> (nat \<times> nat list) list \<Rightarrow> workflow_graph" where
  "new_nodes origin delta =
     map (\<lambda>(i, ds). \<lparr> node_id = i, dependencies = ds, state = Pending,
                      spawned_by = Some origin \<rparr>) delta"

definition insert_delta ::
  "nat \<Rightarrow> nat \<Rightarrow> workflow_graph \<Rightarrow> nat \<Rightarrow> (nat \<times> nat list) list \<Rightarrow>
   graph_error + workflow_graph" where
  "insert_delta r ag G origin delta =
     (let new_ids = map fst delta; G' = G @ new_nodes origin delta in
      if \<not> distinct new_ids \<or> (\<exists>i \<in> set new_ids. i \<in> set (map node_id G))
      then Inl NodeIdCollision
      else if \<exists>ds \<in> set (map snd delta). \<exists>d \<in> set ds. d \<notin> set (map node_id G')
      then Inl UnknownDependency
      else if \<exists>i \<in> set (map node_id G'). (i, i) \<in> (set (dep_edges G'))\<^sup>+
      then Inl CycleDetected
      else Inr (refresh r ag G'))"

text \<open>
  Modelled from the spec: \<open>mark_completed\<close>, section 4.1: the node is \<open>Completed\<close> and
  its dependents are re-evaluated.
\<close>

definition mark_completed :: "nat \<Rightarrow> nat \<Rightarrow> workflow_graph \<Rightarrow> nat \<Rightarrow> workflow_graph" where
  "mark_completed r ag G n = refresh r ag (set_state n Completed G)"

text \<open>
  Modelled from the spec: a cancelled run, and a run whose delta is malformed,
  marks all non-terminal nodes \<open>Failed\<close> (sections 4.2 and 5).
\<close>

definition fail_node :: "task_node \<Rightarrow> task_node" where
  "fail_node x =
     (if state x = Pending \<or> state x = Ready \<or> state x = Running
      then x \<lparr> state := Failed \<rparr> else x)"

definition fail_run :: "workflow_graph \<Rightarrow> workflow_graph" where
  "fail_run G = map fail_node G"

text \<open>
  Modelled from the spec: a failed node, section 7: its direct and transitive
  dependents are marked \<open>Failed\<close> without ever running.
\<close>

definition upstream_failed :: "workflow_graph \<Rightarrow> nat \<Rightarrow> task_node \<Rightarrow> task_node" where
  "upstream_failed G n x =
     (if node_id x = n \<or> (state x = Pending \<and> (n, node_id x) \<in> (set (dep_edges G))\<^sup>+)
      then x \<lparr> state := Failed \<rparr> else x)"

definition mark_failed :: "workflow_graph \<Rightarrow> nat \<Rightarrow> workflow_graph" where
  "mark_failed G n = map (upstream_failed G n) G"

text \<open>
  Modelled from the spec: the scheduler, section 4.2. A ready node is dispatched; a
  running node completes with its delta, which is inserted before the node is
  marked completed (a terminal action is a completion with the empty delta); a
  running node fails or times out; the run is cancelled. An event that the
  scheduler cannot take in a graph has no successor.
\<close>

datatype event = Dispatch nat | Complete nat "(nat \<times> nat list) list" | Fail nat | Cancel

fun step :: "nat \<Rightarrow> nat \<Rightarrow> event \<Rightarrow> workflow_graph \<Rightarrow> workflow_graph option" where
  "step r ag (Dispatch n) G =
     (if has_state G n Ready then Some (set_state n Running G) else None)"
| "step r ag (Complete n delta) G =
     (if has_state G n Running then
        (case insert_delta r ag G n delta of
           Inl e \<Rightarrow> Some (fail_run G)
         | Inr G' \<Rightarrow> Some (mark_completed r ag G' n))
      else None)"
| "step r ag (Fail n) G =
     (if has_state G n Running then Some (mark_failed G n) else None)"
| "step r ag Cancel G = Some (fail_run G)"

text \<open>Modelled from the spec: a run, as the list of the graphs it goes through.\<close>

fun run :: "nat \<Rightarrow> nat \<Rightarrow> event list \<Rightarrow> workflow_graph \<Rightarrow> workflow_graph list option" where
  "run r ag [] G = Some [G]"
| "run r ag (ev # evs) G =
     (case step r ag ev G of None \<Rightarrow> None
      | Some G' \<Rightarrow> map_option ((#) G) (run r ag evs G'))"

text \<open>
  Modelled from the spec: the aggregation task becomes \<open>Ready\<close> between two
  consecutive graphs of a run, and how often it does so in a run.
\<close>

definition becomes_ready :: "nat \<Rightarrow> workflow_graph \<Rightarrow> workflow_graph \<Rightarrow> bool" where
  "becomes_ready ag s s' \<longleftrightarrow> has_state s ag Pending \<and> has_state s' ag Ready"

fun ready_count :: "nat \<Rightarrow> workflow_graph list \<Rightarrow> nat" where
  "ready_count ag (s # s' # tr) =
     (if becomes_ready ag s s' then 1 else 0) + ready_count ag (s' # tr)"
| "ready_count ag _ = 0"

text \<open>
  Modelled from the spec: the action of the aggregation task is terminal (it reads
  results and produces one document), so its completion carries no delta.
\<close>

fun terminal_at :: "nat \<Rightarrow> event \<Rightarrow> bool" where
  "terminal_at ag (Complete n delta) = (n \<noteq> ag \<or> delta = [])"
| "terminal_at ag _ = True"

definition agg_terminal :: "nat \<Rightarrow> event list \<Rightarrow> bool" where
  "agg_terminal ag evs = list_all (terminal_at ag) evs"

text \<open>
  Modelled from the spec: the graph at submission, section 2: one root node, ready
  to run, and the aggregation task, inserted depending only on the root
  (section 4.3).
\<close>

definition initial_graph :: "nat \<Rightarrow> nat \<Rightarrow> workflow_graph" where
  "initial_graph r ag =
     [\<lparr> node_id = r, dependencies = [], state = Ready, spawned_by = None \<rparr>,
      \<lparr> node_id = ag, dependencies = [r], state = Pending, spawned_by = None \<rparr>]"

text \<open>Every node but the aggregation task is \<open>Completed\<close>.\<close>

definition others_completed :: "nat \<Rightarrow> workflow_graph \<Rightarrow> bool" where
  "others_completed ag G \<longleftrightarrow> (\<forall>x \<in> set G. node_id x \<noteq> ag \<longrightarrow> state x = Completed)"

text \<open>
  A run of the root 0 with the aggregation task 1: the root expands into the nodes
  2 and 3, node 3 expands into node 4, which depends on 3 and 2, and every node
  completes.
\<close>

definition two_rounds :: "event list" where
  "two_rounds = [Dispatch 0, Complete 0 [(2, [0]), (3, [0])], Dispatch 3, Dispatch 2,
     Complete 3 [(4, [3, 2])], Complete 2 [], Dispatch 4, Complete 4 [], Dispatch 1,
     Complete 1 []]"

text \<open>
  Invariants of the runs: a change of states keeps ids and edges; in a sound graph
  the ids are distinct, root and aggregation task are present, nothing spawned the
  aggregation task, and every other node is spawned, transitively, by the root.
  A run is waiting while the aggregation task is \<open>Pending\<close> and some other node
  is not \<open>Completed\<close>, dead once the aggregation task is \<open>Failed\<close> beside a
  \<open>Failed\<close> node, and joined once the aggregation task has left \<open>Pending\<close> with
  every other node \<open>Completed\<close>.
\<close>

definition keeps_shape :: "(task_node \<Rightarrow> task_node) \<Rightarrow> bool" where
  "keeps_shape f \<longleftrightarrow>
     (\<forall>x. node_id (f x) = node_id x \<and> dependencies (f x) = dependencies x
          \<and> spawned_by (f x) = spawned_by x)"

definition sound_graph :: "nat \<Rightarrow> nat \<Rightarrow> workflow_graph \<Rightarrow> bool" where
  "sound_graph r ag G \<longleftrightarrow>
     distinct (map node_id G) \<and> r \<in> set (map node_id G) \<and> ag \<in> set (map node_id G)
     \<and> (\<forall>x \<in> set G. node_id x = ag \<longrightarrow> spawned_by x = None)
     \<and> (\<forall>x \<in> set G. node_id x \<noteq> r \<and> node_id x \<noteq> ag \<longrightarrow> spawned_from G r (node_id x))"

definition waiting :: "nat \<Rightarrow> workflow_graph \<Rightarrow> bool" where
  "waiting ag G \<longleftrightarrow> has_state G ag Pending \<and> \<not> others_completed ag G"

definition dead :: "nat \<Rightarrow> workflow_graph \<Rightarrow> bool" where
  "dead ag G \<longleftrightarrow> has_state G ag Failed \<and> (\<exists>x \<in> set G. node_id x \<noteq> ag \<and> state x = Failed)"

definition joined :: "nat \<Rightarrow> workflow_graph \<Rightarrow> bool" where
  "joined ag G \<longleftrightarrow> \<not> has_state G ag Pending \<and> others_completed ag G"

text \<open>
  What the claim says of a run: the aggregation task becomes \<open>Ready\<close> at most once;
  where it does, the frontier is closed, and from there on no node is added and
  every other node is \<open>Completed\<close>; and it has become \<open>Ready\<close> exactly once when
  the run ends with every other node \<open>Completed\<close>.
\<close>

definition ready_once :: "nat \<Rightarrow> nat \<Rightarrow> workflow_graph list \<Rightarrow> bool" where
  "ready_once r ag tr \<longleftrightarrow>
     ready_count ag tr \<le> 1
     \<and> (\<forall>pre s s' post. tr = pre @ s # s' # post \<and> becomes_ready ag s s' \<longrightarrow>
          frontier_closed s' r ag
          \<and> (\<forall>t \<in> set (s' # post). map node_id t = map node_id s' \<and> others_completed ag t))
     \<and> (others_completed ag (last tr) \<longrightarrow> ready_count ag tr = 1)"

section \<open>Properties\<close>

subsection \<open>Successful steps\<close>

lemma bindE_Inr_iff: "bindE m f = Inr y \<longleftrightarrow> (\<exists>x. m = Inr x \<and> f x = Inr y)"
  by (cases m) (simp_all add: bindE_def)

lemma at_fws_Inr_iff: "at_fws fws m = Inr x \<longleftrightarrow> m = Inr x"
  by (cases m) (simp_all add: at_fws_def)

lemma index0_Inr_iff: "index0 xs = Inr x \<longleftrightarrow> (\<exists>ys. xs = x # ys)"
  by (cases xs) (auto simp: index0_def)

lemma lookup_name_Inr_iff: "lookup_name n b = Inr v \<longleftrightarrow> b = Some v"
  by (cases b) (simp_all add: lookup_name_def)

lemma getitem_Inr_iff: "getitem d k s = Inr v \<longleftrightarrow> map_of d k = Some v"
  by (cases "map_of d k") (simp_all add: getitem_def)

lemma Si_run: "get_wf_adsorption patched_globals main_args = Inr Si_workflow"
  by code_simp

subsection \<open>The name of the workflow\<close>

text \<open>
  C10. Whenever \<open>get_wf_adsorption\<close> reaches its return statement, the workflow it
  returns is named by the reduced formula of the input structure, a colon, and the
  words "elastic constants".
\<close>

theorem get_wf_adsorption_name:
  assumes "get_wf_adsorption g a = Inr w"
  shows "wf_name w = reduced_formula (a_structure a) @ '':elastic constants''"
  using assms
  by (auto simp: get_wf_adsorption_def bindE_Inr_iff Let_def)

theorem get_wf_adsorption_name_witness:
  "get_wf_adsorption patched_globals main_args = Inr Si_workflow
   \<and> wf_name Si_workflow = ''Si:elastic constants''"
  using get_wf_adsorption_name [OF Si_run] Si_run
  by (simp add: main_args_def Si_def)

subsection \<open>The module as it is written\<close>

lemma int_chars_Inr_iff:
  "(\<exists>ds. int_chars s = Inr ds \<and> length ds = length s)
   \<longleftrightarrow> list_all (\<lambda>c. 48 \<le> (of_char c :: nat) \<and> (of_char c :: nat) \<le> 57) s"
  by (induction s) (auto simp: bindE_Inr_iff int_char_def Let_def)

lemma int_chars_length: "int_chars s = Inr ds \<Longrightarrow> length ds = length s"
  by (induction s arbitrary: ds) (auto simp: bindE_Inr_iff)

lemma int_chars_cases:
  "(\<exists>ds. int_chars s = Inr ds) \<or> (\<exists>c. int_chars s = Inl (ValueError_int c))"
proof (induction s)
  case Nil
  then show ?case by simp
next
  case (Cons c s)
  then show ?case
    by (cases "int_char c") (auto simp: bindE_def int_char_def Let_def split: if_splits)
qed

lemma max_index_of_decimal:
  assumes "decimal_keys cfg"
  shows "\<exists>n. max_index_of cfg = Inr n"
proof -
  define s where "s = concat (map fst cfg)"
  from assms have s: "s \<noteq> []"
    "list_all (\<lambda>c. 48 \<le> (of_char c :: nat) \<and> (of_char c :: nat) \<le> 57) s"
    unfolding decimal_keys_def s_def by blast+
  from s(2) obtain ds where ds: "int_chars s = Inr ds" "length ds = length s"
    using int_chars_Inr_iff [of s] by blast
  with s(1) have "ds \<noteq> []"
    by auto
  then obtain d ds' where "ds = d # ds'"
    by (cases ds) auto
  with ds(1) show ?thesis
    unfolding max_index_of_def s_def [symmetric]
    by (simp add: bindE_def py_max_def)
qed

lemma max_index_of_not_decimal:
  assumes "\<not> decimal_keys cfg"
  shows "\<exists>e. max_index_of cfg = Inl e \<and> is_ValueError e"
proof -
  define s where "s = concat (map fst cfg)"
  consider ds where "int_chars s = Inr ds" | c where "int_chars s = Inl (ValueError_int c)"
    using int_chars_cases by blast
  then show ?thesis
  proof cases
    case 1
    from int_chars_length [OF 1] 1 have
      "list_all (\<lambda>c. 48 \<le> (of_char c :: nat) \<and> (of_char c :: nat) \<le> 57) s"
      using int_chars_Inr_iff [of s] by blast
    with assms have "s = []"
      unfolding decimal_keys_def s_def by blast
    with 1 have "ds = []" by simp
    with 1 show ?thesis
      unfolding max_index_of_def s_def [symmetric]
      by (simp add: bindE_def py_max_def)
  next
    case 2
    then show ?thesis
      unfolding max_index_of_def s_def [symmetric]
      by (simp add: bindE_def)
  qed
qed

text \<open>
  Whatever the configuration, a run in which \<open>generate_decorated_slabs\<close> or
  \<open>opt_struct\<close> is unbound ends at or before line 121, with the root firework alone
  in \<open>fws\<close>. Nothing in the function binds \<open>opt_struct\<close>.
\<close>

lemma get_wf_adsorption_needs_opt_struct:
  assumes "g_generate_decorated_slabs g = None \<or> g_opt_struct g = None"
  shows "\<exists>e. get_wf_adsorption g a = Inl (e, [root_fw a])"
proof (cases "max_index_of (a_adsorption_config a)")
  case (Inl e)
  then show ?thesis
    by (simp add: get_wf_adsorption_def bindE_def at_fws_def)
next
  case (Inr n)
  then show ?thesis
    using assms
    by (cases "g_generate_decorated_slabs g")
       (auto simp: get_wf_adsorption_def bindE_def at_fws_def lookup_name_def)
qed

text \<open>
  C8, as amended. In the module as it is written every call of
  \<open>get_wf_adsorption\<close> raises with the root optimization firework alone in \<open>fws\<close>:
  no workflow is returned and no slab or adsorbate firework is appended. When the
  keys of the configuration, joined, are a non-empty string of decimal digits, the
  exception is the \<open>NameError\<close> of the slab-generation step at line 121, for the name
  \<open>generate_decorated_slabs\<close>, which is read before \<open>opt_struct\<close>; otherwise it is the
  \<open>ValueError\<close> of \<open>int\<close> or \<open>max\<close> at line 120.
\<close>

theorem get_wf_adsorption_module_raises:
  "(decimal_keys (a_adsorption_config a) \<longrightarrow>
      get_wf_adsorption module_globals a
        = Inl (NameError ''generate_decorated_slabs'', [root_fw a]))
   \<and> (\<not> decimal_keys (a_adsorption_config a) \<longrightarrow>
      (\<exists>e. is_ValueError e \<and> get_wf_adsorption module_globals a = Inl (e, [root_fw a])))"
proof (intro conjI impI)
  assume "decimal_keys (a_adsorption_config a)"
  from max_index_of_decimal [OF this] obtain n where
    "max_index_of (a_adsorption_config a) = Inr n" ..
  then show "get_wf_adsorption module_globals a
               = Inl (NameError ''generate_decorated_slabs'', [root_fw a])"
    by (simp add: get_wf_adsorption_def bindE_def at_fws_def lookup_name_def module_globals_def)
next
  assume "\<not> decimal_keys (a_adsorption_config a)"
  from max_index_of_not_decimal [OF this] obtain e where
    "max_index_of (a_adsorption_config a) = Inl e" "is_ValueError e" by blast
  then show "\<exists>e. is_ValueError e \<and> get_wf_adsorption module_globals a = Inl (e, [root_fw a])"
    by (simp add: get_wf_adsorption_def bindE_def at_fws_def)
qed

theorem get_wf_adsorption_module_raises_witness:
  "get_wf_adsorption module_globals main_args
     = Inl (NameError ''generate_decorated_slabs'', [Si_root])
   \<and> (\<exists>e. is_ValueError e \<and> get_wf_adsorption module_globals dash_args = Inl (e, [Si_root]))"
proof -
  have 1: "decimal_keys (a_adsorption_config main_args)" by code_simp
  have 2: "\<not> decimal_keys (a_adsorption_config dash_args)" by code_simp
  have 3: "root_fw main_args = Si_root" "root_fw dash_args = Si_root" by code_simp+
  show ?thesis
    using get_wf_adsorption_module_raises [of main_args]
      get_wf_adsorption_module_raises [of dash_args] 1 2 3
    by simp
qed

text \<open>
  C8, as stated, fails for a non-empty configuration with the key \<open>1-10\<close>: line 120
  raises \<open>ValueError\<close> on the minus sign, before the slab-generation step.
\<close>

theorem get_wf_adsorption_ValueError_first:
  "a_adsorption_config dash_args \<noteq> []
   \<and> get_wf_adsorption module_globals dash_args = Inl (ValueError_int ''-'', [Si_root])"
  by code_simp

subsection \<open>The expanding task\<close>

text \<open>
  C9. For every firework spec, running \<open>AddAdsorptionTasks\<close> the way FireWorks runs a
  task fails before any task is added: \<open>run_task\<close> is declared without the
  \<open>fw_spec\<close> parameter, so the call raises \<open>TypeError\<close>, whatever the names are bound
  to. Called without the argument, the body raises as well in the module as it is
  written, at \<open>self.spec\<close> when the task has no such attribute and at an unbound
  name at the latest. No call returns additions.
\<close>

theorem AddAdsorptionTasks_never_expands:
  "fireworks_run (AddAdsorptionTasks_run_task g d) self sp
     = Inl (TypeError ''run_task() takes 1 positional argument'')
   \<and> (\<exists>e. AddAdsorptionTasks_run_task module_globals d self [] = Inl e)
   \<and> (attr_spec self = None \<longrightarrow>
        AddAdsorptionTasks_run_task g d self [] = Inl (AttributeError ''spec''))"
proof (intro conjI impI)
  show "fireworks_run (AddAdsorptionTasks_run_task g d) self sp
          = Inl (TypeError ''run_task() takes 1 positional argument'')"
    by (simp add: fireworks_run_def AddAdsorptionTasks_run_task_def)
next
  show "\<exists>e. AddAdsorptionTasks_run_task module_globals d self [] = Inl e"
    by (simp add: AddAdsorptionTasks_run_task_def run_task_body_def bindE_def lookup_name_def
          module_globals_def split: sum.splits)
next
  assume "attr_spec self = None"
  then show "AddAdsorptionTasks_run_task g d self [] = Inl (AttributeError ''spec'')"
    by (simp add: AddAdsorptionTasks_run_task_def run_task_body_def optimized_structure_def
          bindE_def)
qed

theorem AddAdsorptionTasks_never_expands_witness:
  "attr_spec bare_task = None
   \<and> fireworks_run (AddAdsorptionTasks_run_task patched_globals Si_drone) bare_task opt_spec
       = Inl (TypeError ''run_task() takes 1 positional argument'')
   \<and> AddAdsorptionTasks_run_task patched_globals Si_drone bare_task []
       = Inl (AttributeError ''spec'')"
  using AddAdsorptionTasks_never_expands [of patched_globals Si_drone bare_task opt_spec]
  by (simp add: bare_task_def)

text \<open>
  C5 describes what the expanding task is meant to do when the root optimization
  completes. Run on the spec of a completed optimization, the way FireWorks runs a
  task, it raises \<open>TypeError\<close> even with every name bound; called without the
  argument in the module as it is written, it raises \<open>NameError\<close>, or
  \<open>AttributeError\<close> when the task has no attribute \<open>spec\<close>. It returns no
  \<open>FWAction\<close>.
\<close>

theorem AddAdsorptionTasks_run_raises:
  "fireworks_run (AddAdsorptionTasks_run_task patched_globals Si_drone) spec_task opt_spec
     = Inl (TypeError ''run_task() takes 1 positional argument'')
   \<and> AddAdsorptionTasks_run_task module_globals Si_drone spec_task []
       = Inl (NameError ''generate_decorated_slabs'')
   \<and> AddAdsorptionTasks_run_task module_globals Si_drone bare_task []
       = Inl (AttributeError ''spec'')"
  by code_simp

subsection \<open>The analysis task\<close>

text \<open>
  C3, as amended. \<open>AnalyzeAdsorption.run_task\<close> persists nothing: for every task,
  firework spec and state of the sinks, with or without \<open>db_file\<close>, it leaves the
  files and the database collection as they were.
\<close>

theorem AnalyzeAdsorption_persists_nothing:
  "snd (fireworks_run AnalyzeAdsorption_run_task self sp s) = s
   \<and> snd (AnalyzeAdsorption_run_task self args s) = s"
  by (simp add: fireworks_run_def AnalyzeAdsorption_run_task_def)

theorem AnalyzeAdsorption_persists_nothing_witness:
  "snd (fireworks_run AnalyzeAdsorption_run_task analyze_Si opt_spec no_documents) = no_documents"
  using AnalyzeAdsorption_persists_nothing [of analyze_Si opt_spec no_documents]
  by simp

text \<open>
  C3, as stated, fails for a task without \<open>db_file\<close> run on empty sinks: no file
  \<open>adsorption.json\<close> exists afterwards, and the value returned is \<open>None\<close>.
\<close>

theorem AnalyzeAdsorption_writes_no_file:
  "p_db_file analyze_Si = None
   \<and> fireworks_run AnalyzeAdsorption_run_task analyze_Si opt_spec no_documents
       = (Inr None, no_documents)
   \<and> files no_documents ''adsorption.json'' = None
   \<and> adsorption_collection no_documents = []"
  by (simp add: fireworks_run_def AnalyzeAdsorption_run_task_def analyze_Si_def
        no_documents_def)

subsection \<open>The check of the miller indices\<close>

text \<open>
  Lines 126-129 check the keys of \<open>adsorbate_config\<close>, a name of the module, not of
  the parameter \<open>adsorption_config\<close>. With every name bound, a key of
  \<open>adsorbate_config\<close> that is no miller-index string of a generated slab raises the
  \<open>ValueError\<close> that lists the strings, with the root firework alone in \<open>fws\<close>.
\<close>

lemma check_keys_reads_adsorbate_config:
  assumes "g_generate_decorated_slabs g = Some gen" and "g_opt_struct g = Some st"
    and "g_adsorbate_config g = Some cfg"
    and "max_index_of (a_adsorption_config a) = Inr n"
    and "k \<in> set (map fst cfg)"
    and "k \<notin> set (map mi_string_of (gen st (Some (gen_opts_of a n))))"
  shows "get_wf_adsorption g a
           = Inl (ValueError_miller (map mi_string_of (gen st (Some (gen_opts_of a n)))),
                  [root_fw a])"
proof -
  have "check_keys (map fst cfg) (map mi_string_of (gen st (Some (gen_opts_of a n))))
          = Inl (ValueError_miller (map mi_string_of (gen st (Some (gen_opts_of a n)))))"
    using assms(5,6) unfolding check_keys_def by auto
  then show ?thesis
    using assms(1-4)
    by (simp add: get_wf_adsorption_def bindE_def at_fws_def lookup_name_def Let_def)
qed

text \<open>
  C1 says that a key of the configuration passed to \<open>get_wf_adsorption\<close> that no
  generated slab has makes the construction fail with that \<open>ValueError\<close>. The
  configuration passed here has the one key \<open>110\<close>, and the slabs are (111) and
  (100). In the module as it is written the call raises \<open>NameError\<close> at line 121;
  with every name bound, and \<open>adsorbate_config\<close> bound to a configuration for (111),
  it raises nothing and returns a workflow with three derived fireworks.
\<close>

theorem get_wf_adsorption_unchecked_key:
  "map fst (a_adsorption_config args_110) = [''110'']
   \<and> map mi_string_of (two_slabs Si (Some (gen_opts_of args_110 1))) = [''111'', ''100'']
   \<and> get_wf_adsorption module_globals args_110
       = Inl (NameError ''generate_decorated_slabs'', [Si_root])
   \<and> get_wf_adsorption patched_globals args_110 = Inr Si_workflow"
  by code_simp

subsection \<open>What the loops append\<close>

lemma bindE_Inr: "bindE (Inr x) f = f x"
  by (simp add: bindE_def)

lemma at_fws_Inr: "at_fws fws (Inr x) = Inr x"
  by (simp add: at_fws_def)

lemma lookup_name_Some: "lookup_name n (Some v) = Inr v"
  by (simp add: lookup_name_def)

lemma struct_loop_derived:
  "struct_loop g a sl tr ss (r0 # pre) = Inr fws' \<Longrightarrow>
   \<exists>new. fws' = r0 # pre @ new \<and> (\<forall>fw \<in> set new. derived_of r0 fw)"
proof (induction ss arbitrary: pre)
  case Nil
  then show ?case by (intro exI [of _ "[]"]) auto
next
  case (Cons s ss)
  from Cons.prems obtain p where
    rest: "struct_loop g a sl tr ss
             (r0 # pre @ [TransmuterFW ''slab calculation'' (a_structure a) tr True (a_db_file a)
                       (a_vasp_cmd a) r0 ''MVLSlabSet'' p]) = Inr fws'"
    by (auto simp: bindE_Inr_iff at_fws_Inr_iff index0_Inr_iff Let_def)
  from Cons.IH [OF rest] obtain new where
    new: "fws' = r0 # (pre @ [TransmuterFW ''slab calculation'' (a_structure a) tr True
                       (a_db_file a) (a_vasp_cmd a) r0 ''MVLSlabSet'' p]) @ new"
      "\<forall>fw \<in> set new. derived_of r0 fw"
    by blast
  show ?case
    by (rule exI [of _ "TransmuterFW ''slab calculation'' (a_structure a) tr True (a_db_file a)
                       (a_vasp_cmd a) r0 ''MVLSlabSet'' p # new"])
       (use new in \<open>simp add: derived_of_def\<close>)
qed

lemma molecule_loop_derived:
  "molecule_loop g a asf sl tr ms (r0 # pre) = Inr fws' \<Longrightarrow>
   \<exists>new. fws' = r0 # pre @ new \<and> (\<forall>fw \<in> set new. derived_of r0 fw)"
proof (induction ms arbitrary: pre)
  case Nil
  then show ?case by (intro exI [of _ "[]"]) auto
next
  case (Cons m ms)
  from Cons.prems obtain mid where
    first: "struct_loop g a sl tr (asf m) (r0 # pre) = Inr mid" and
    rest: "molecule_loop g a asf sl tr ms mid = Inr fws'"
    by (auto simp: bindE_Inr_iff)
  from struct_loop_derived [OF first] obtain n1 where
    n1: "mid = r0 # pre @ n1" "\<forall>fw \<in> set n1. derived_of r0 fw"
    by blast
  from rest n1 have "molecule_loop g a asf sl tr ms (r0 # (pre @ n1)) = Inr fws'"
    by simp
  from Cons.IH [OF this] obtain n2 where
    n2: "fws' = r0 # (pre @ n1) @ n2" "\<forall>fw \<in> set n2. derived_of r0 fw"
    by blast
  show ?case
    by (rule exI [of _ "n1 @ n2"]) (use n1 n2 in auto)
qed

lemma slab_loop_derived:
  "slab_loop g a slabs (r0 # pre) = Inr fws' \<Longrightarrow>
   \<exists>new. fws' = r0 # pre @ new \<and> (\<forall>fw \<in> set new. derived_of r0 fw)"
proof (induction slabs arbitrary: pre)
  case Nil
  then show ?case by (intro exI [of _ "[]"]) auto
next
  case (Cons sl slabs)
  from Cons.prems obtain cfg where cfg: "g_adsorbate_config g = Some cfg"
    by (auto simp: bindE_Inr_iff at_fws_Inr_iff lookup_name_Inr_iff Let_def)
  show ?case
  proof (cases "mi_string_of sl \<in> set (map fst cfg)")
    case False
    with Cons.prems cfg have "slab_loop g a slabs (r0 # pre) = Inr fws'"
      by (simp add: bindE_def at_fws_def lookup_name_def Let_def)
    from Cons.IH [OF this] show ?thesis .
  next
    case True
    from Cons.prems True cfg obtain shift sgc sip asf mols mid where
      first: "molecule_loop g a (asf sl) sl
                [SlabTransformation (miller_index sl) (a_min_slab_size a) (a_min_vacuum_size a)
                   shift sgc] mols
                ((r0 # pre) @ [TransmuterFW ''slab calculation'' (a_structure a)
                   [SlabTransformation (miller_index sl) (a_min_slab_size a)
                      (a_min_vacuum_size a) shift sgc]
                   True (a_db_file a) (a_vasp_cmd a) r0 ''MVLSlabSet'' sip]) = Inr mid" and
      rest: "slab_loop g a slabs mid = Inr fws'"
      by (auto simp: bindE_Inr_iff at_fws_Inr_iff index0_Inr_iff lookup_name_Inr_iff Let_def)
    define sfw where "sfw = TransmuterFW ''slab calculation'' (a_structure a)
                   [SlabTransformation (miller_index sl) (a_min_slab_size a)
                      (a_min_vacuum_size a) shift sgc]
                   True (a_db_file a) (a_vasp_cmd a) r0 ''MVLSlabSet'' sip"
    from first have "molecule_loop g a (asf sl) sl
                [SlabTransformation (miller_index sl) (a_min_slab_size a) (a_min_vacuum_size a)
                   shift sgc] mols (r0 # (pre @ [sfw])) = Inr mid"
      by (simp add: sfw_def)
    from molecule_loop_derived [OF this] obtain n1 where
      n1: "mid = r0 # (pre @ [sfw]) @ n1" "\<forall>fw \<in> set n1. derived_of r0 fw"
      by blast
    from rest n1 have "slab_loop g a slabs (r0 # (pre @ [sfw] @ n1)) = Inr fws'"
      by simp
    from Cons.IH [OF this] obtain n2 where
      n2: "fws' = r0 # (pre @ [sfw] @ n1) @ n2" "\<forall>fw \<in> set n2. derived_of r0 fw"
      by blast
    have sfw: "derived_of r0 sfw"
      by (simp add: derived_of_def sfw_def)
    show ?thesis
      by (rule exI [of _ "sfw # n1 @ n2"]) (use n1 n2 sfw in auto)
  qed
qed

text \<open>How many fireworks the loops append.\<close>

lemma struct_loop_length:
  "struct_loop g a sl tr ss fws = Inr fws' \<Longrightarrow> length fws' = length fws + length ss"
  by (induction ss arbitrary: fws)
     (fastforce simp: bindE_Inr_iff at_fws_Inr_iff Let_def)+

lemma molecule_loop_length:
  "molecule_loop g a asf sl tr ms fws = Inr fws' \<Longrightarrow>
   length fws' = length fws + sum_list (map (\<lambda>m. length (asf m)) ms)"
  by (induction ms arbitrary: fws)
     (fastforce simp: bindE_Inr_iff dest: struct_loop_length)+

lemma slab_loop_length:
  assumes "g_adsorbate_config g = Some cfg" and "g_AdsorbateSiteFinder g = Some finder"
  shows "slab_loop g a slabs fws = Inr fws' \<Longrightarrow>
         length fws' = length fws + sum_list (map (slab_contribution cfg finder) slabs)"
proof (induction slabs arbitrary: fws)
  case Nil
  then show ?case by simp
next
  case (Cons sl slabs)
  show ?case
  proof (cases "mi_string_of sl \<in> set (map fst cfg)")
    case False
    with Cons.prems assms have "slab_loop g a slabs fws = Inr fws'"
      by (simp add: bindE_def at_fws_def lookup_name_def Let_def)
    from Cons.IH [OF this] False show ?thesis
      by (simp add: slab_contribution_def)
  next
    case True
    from Cons.prems True assms obtain tr sfw mols mid where
      mols: "map_of cfg (mi_string_of sl) = Some mols" and
      first: "molecule_loop g a (finder sl) sl tr mols (fws @ [sfw]) = Inr mid" and
      rest: "slab_loop g a slabs mid = Inr fws'"
      by (auto simp: bindE_Inr_iff at_fws_Inr_iff lookup_name_Inr_iff getitem_Inr_iff Let_def)
    have here: "slab_contribution cfg finder sl =
                  1 + sum_list (map (\<lambda>m. length (finder sl m)) mols)"
      using True mols by (simp add: slab_contribution_def config_molecules_def)
    from molecule_loop_length [OF first] Cons.IH [OF rest] here show ?thesis
      by simp
  qed
qed

lemma task_struct_loop_length:
  "task_struct_loop g vis ss fws = Inr fws' \<Longrightarrow>
   \<exists>new. fws' = fws @ new \<and> length new = length ss"
proof (induction ss arbitrary: fws)
  case Nil
  then show ?case by simp
next
  case (Cons s ss)
  from Cons.prems obtain fw where
    "task_struct_loop g vis ss (fws @ [fw]) = Inr fws'"
    by (auto simp: bindE_Inr_iff)
  from Cons.IH [OF this] obtain new where "fws' = (fws @ [fw]) @ new" "length new = length ss"
    by blast
  then show ?case
    by (intro exI [of _ "fw # new"]) simp
qed

lemma task_molecule_loop_length:
  "task_molecule_loop g vis asf ms fws = Inr fws' \<Longrightarrow>
   \<exists>new. fws' = fws @ new \<and> length new = sum_list (map (\<lambda>m. length (asf m)) ms)"
proof (induction ms arbitrary: fws)
  case Nil
  then show ?case by simp
next
  case (Cons m ms)
  from Cons.prems obtain mid where
    first: "task_struct_loop g vis (asf m) fws = Inr mid" and
    rest: "task_molecule_loop g vis asf ms mid = Inr fws'"
    by (auto simp: bindE_Inr_iff)
  from task_struct_loop_length [OF first] obtain n1 where
    n1: "mid = fws @ n1" "length n1 = length (asf m)" by blast
  from Cons.IH [OF rest] obtain n2 where
    n2: "fws' = mid @ n2" "length n2 = sum_list (map (\<lambda>m. length (asf m)) ms)" by blast
  show ?case
    by (rule exI [of _ "n1 @ n2"]) (use n1 n2 in simp)
qed

lemma task_slab_loop_length:
  assumes "g_adsorbate_config g = Some cfg" and "g_AdsorbateSiteFinder g = Some finder"
  shows "task_slab_loop g slabs fws = Inr fws' \<Longrightarrow>
         \<exists>new. fws' = fws @ new
           \<and> length new = sum_list (map (slab_contribution cfg finder) slabs)"
proof (induction slabs arbitrary: fws)
  case Nil
  then show ?case by simp
next
  case (Cons sl slabs)
  show ?case
  proof (cases "mi_string_of sl \<in> set (map fst cfg)")
    case False
    with Cons.prems assms have "task_slab_loop g slabs fws = Inr fws'"
      by (simp add: bindE_def lookup_name_def Let_def)
    from Cons.IH [OF this] False show ?thesis
      by (simp add: slab_contribution_def)
  next
    case True
    from Cons.prems True assms obtain vis sfw mols mid where
      mols: "map_of cfg (mi_string_of sl) = Some mols" and
      first: "task_molecule_loop g vis (finder sl) mols (fws @ [sfw]) = Inr mid" and
      rest: "task_slab_loop g slabs mid = Inr fws'"
      by (auto simp: bindE_Inr_iff lookup_name_Inr_iff getitem_Inr_iff Let_def)
    have here: "slab_contribution cfg finder sl =
                  1 + sum_list (map (\<lambda>m. length (finder sl m)) mols)"
      using True mols by (simp add: slab_contribution_def config_molecules_def)
    from task_molecule_loop_length [OF first] obtain n1 where
      n1: "mid = (fws @ [sfw]) @ n1" "length n1 = sum_list (map (\<lambda>m. length (finder sl m)) mols)"
      by blast
    from Cons.IH [OF rest] obtain n2 where
      n2: "fws' = mid @ n2" "length n2 = sum_list (map (slab_contribution cfg finder) slabs)"
      by blast
    show ?thesis
      by (rule exI [of _ "sfw # n1 @ n2"]) (use n1 n2 here in simp)
  qed
qed

lemma claimed_delta_size_eq:
  "claimed_delta_size cfg finder slabs = sum_list (map (slab_contribution cfg finder) slabs)"
proof (induction slabs)
  case Nil
  then show ?case by (simp add: claimed_delta_size_def)
next
  case (Cons sl slabs)
  have "length (placements cfg finder sl)
          = sum_list (map (\<lambda>m. length (finder sl m)) (config_molecules cfg (mi_string_of sl)))"
    by (simp add: placements_def length_concat comp_def)
  with Cons show ?case
    by (simp add: claimed_delta_size_def slab_contribution_def Let_def)
qed

subsection \<open>The root of the workflow\<close>

text \<open>
  C6. In a workflow that \<open>get_wf_adsorption\<close> returns, the bulk optimization
  firework comes first and has no parents, every other firework has exactly that
  firework as its parent, so it is the only firework without dependencies, and no
  derived firework may become ready unless it has completed.
\<close>

theorem get_wf_adsorption_single_root:
  assumes "get_wf_adsorption g a = Inr w"
  shows "\<exists>rest. wf_fws w = root_fw a # rest
           \<and> fw_parents (root_fw a) = []
           \<and> (\<forall>fw \<in> set rest. fw_parents fw = [root_fw a])
           \<and> filter (\<lambda>fw. fw_parents fw = []) (wf_fws w) = [root_fw a]
           \<and> (\<forall>fw \<in> set rest. \<forall>completed. may_be_ready completed fw \<longrightarrow> root_fw a \<in> completed)"
proof -
  from assms obtain slabs fws' where
    loop: "slab_loop g a slabs [root_fw a] = Inr fws'" and w: "wf_fws w = fws'"
    by (auto simp: get_wf_adsorption_def bindE_Inr_iff Let_def)
  from slab_loop_derived [of g a slabs "root_fw a" "[]" fws'] loop obtain new where
    new: "fws' = root_fw a # new" "\<forall>fw \<in> set new. derived_of (root_fw a) fw"
    by auto
  have root: "fw_parents (root_fw a) = []"
    by (simp add: root_fw_def)
  have par: "\<forall>fw \<in> set new. fw_parents fw = [root_fw a]"
    using new(2) by (simp add: derived_of_def)
  then have "filter (\<lambda>fw. fw_parents fw = []) new = []"
    by (auto simp: filter_empty_conv)
  with root have one: "filter (\<lambda>fw. fw_parents fw = []) (root_fw a # new) = [root_fw a]"
    by simp
  have rdy: "\<forall>fw \<in> set new. \<forall>completed. may_be_ready completed fw \<longrightarrow> root_fw a \<in> completed"
    using par by (simp add: may_be_ready_def)
  from w new(1) have fws: "wf_fws w = root_fw a # new"
    by simp
  show ?thesis
    by (rule exI [of _ new]) (use fws root par one rdy in simp)
qed

theorem get_wf_adsorption_single_root_witness:
  "get_wf_adsorption patched_globals main_args = Inr Si_workflow
   \<and> wf_fws Si_workflow = Si_root # [Si_derived, Si_derived, Si_derived]
   \<and> fw_parents Si_root = []
   \<and> fw_parents Si_derived = [Si_root]
   \<and> filter (\<lambda>fw. fw_parents fw = []) (wf_fws Si_workflow) = [Si_root]"
proof -
  have r: "root_fw main_args = Si_root" by code_simp
  have w: "wf_fws Si_workflow = [Si_root, Si_derived, Si_derived, Si_derived]"
    by (simp add: Si_workflow_def)
  from get_wf_adsorption_single_root [OF Si_run] show ?thesis
    using Si_run unfolding r w by auto
qed

subsection \<open>The size of the expansion\<close>

text \<open>
  The loops read the configuration under the name \<open>adsorbate_config\<close>. With that
  name, the site finder and the slab generator bound, a workflow that
  \<open>get_wf_adsorption\<close> returns holds, after the root, one firework for each
  generated slab whose miller-index string is a key of \<open>adsorbate_config\<close> and one
  per adsorption structure of each molecule configured there, and none for the
  other slabs; so do the additions that the body of \<open>AddAdsorptionTasks.run_task\<close>
  returns when \<open>incar_update\<close> is empty.
\<close>

lemma loops_count_adsorbate_config:
  assumes "g_adsorbate_config g = Some cfg"
    and "g_AdsorbateSiteFinder g = Some finder"
    and "g_generate_decorated_slabs g = Some gen"
  shows "(get_wf_adsorption g a = Inr w \<longrightarrow>
            (\<exists>st n new. g_opt_struct g = Some st
               \<and> max_index_of (a_adsorption_config a) = Inr n
               \<and> wf_fws w = root_fw a # new
               \<and> length new = claimed_delta_size cfg finder (gen st (Some (gen_opts_of a n)))))
       \<and> (run_task_body g d self = Inr act \<longrightarrow> g_incar_update g = Some [] \<longrightarrow>
            (\<exists>st. optimized_structure d self = Inr st
               \<and> length (additions act) = claimed_delta_size cfg finder (gen st None)))
       \<and> claimed_delta_size cfg finder slabs
           = sum_list (map (slab_contribution cfg finder) slabs)"
proof (intro conjI impI)
  assume "get_wf_adsorption g a = Inr w"
  with assms obtain st n fws' where
    st: "g_opt_struct g = Some st" and n: "max_index_of (a_adsorption_config a) = Inr n" and
    loop: "slab_loop g a (gen st (Some (gen_opts_of a n))) [root_fw a] = Inr fws'" and
    w: "wf_fws w = fws'"
    by (auto simp: get_wf_adsorption_def bindE_Inr_iff at_fws_Inr_iff lookup_name_Inr_iff
          Let_def)
  from slab_loop_derived [of g a _ "root_fw a" "[]" fws'] loop obtain new where
    new: "fws' = root_fw a # new" by auto
  from slab_loop_length [OF assms(1,2) loop] new have
    "length new = sum_list (map (slab_contribution cfg finder) (gen st (Some (gen_opts_of a n))))"
    by simp
  with st n w new show "\<exists>st n new. g_opt_struct g = Some st
               \<and> max_index_of (a_adsorption_config a) = Inr n
               \<and> wf_fws w = root_fw a # new
               \<and> length new = claimed_delta_size cfg finder (gen st (Some (gen_opts_of a n)))"
    by (simp add: claimed_delta_size_eq)
next
  assume run: "run_task_body g d self = Inr act" and iu: "g_incar_update g = Some []"
  with assms obtain st fws where
    st: "optimized_structure d self = Inr st" and
    loop: "task_slab_loop g (gen st None) [] = Inr fws" and
    act: "act = FWAction fws"
    by (auto simp: run_task_body_def bindE_Inr_iff lookup_name_Inr_iff)
  from task_slab_loop_length [OF assms(1,2) loop] have
    "length fws = sum_list (map (slab_contribution cfg finder) (gen st None))"
    by auto
  with st act show "\<exists>st. optimized_structure d self = Inr st
               \<and> length (additions act) = claimed_delta_size cfg finder (gen st None)"
    by (simp add: claimed_delta_size_eq)
next
  show "claimed_delta_size cfg finder slabs
           = sum_list (map (slab_contribution cfg finder) slabs)"
    by (rule claimed_delta_size_eq)
qed

lemma Si_expansion:
  "run_task_body patched_globals Si_drone spec_task
     = Inr (FWAction [Si_slab_fw, Si_ads_fw Si_CO_1, Si_ads_fw Si_CO_2])"
  by code_simp

text \<open>
  C2 counts the expansion by the adsorption configuration: one task for each
  generated slab whose miller-index string is a key, one per adsorption structure
  of each configured molecule, none for the other slabs. The configuration passed
  to \<open>get_wf_adsorption\<close> here has the one key \<open>110\<close> and the slabs are (111) and
  (100), so that count is zero; with every name bound, and \<open>adsorbate_config\<close>
  bound to a configuration for (111), the workflow returned holds three derived
  fireworks, since lines 133 and 149 read \<open>adsorbate_config\<close> and not the
  parameter. In the module as it is written the call with the key \<open>111\<close>, for
  which the count on these slabs is three, raises \<open>NameError\<close> at line 121 with the
  root firework alone in \<open>fws\<close>, and the expanding task run by FireWorks raises
  \<open>TypeError\<close>: nothing is added.
\<close>

theorem expansion_ignores_passed_config:
  "map fst (a_adsorption_config args_110) = [''110'']
   \<and> claimed_delta_size (a_adsorption_config args_110) two_placements
         (two_slabs Si (Some (gen_opts_of args_110 1))) = 0
   \<and> get_wf_adsorption patched_globals args_110 = Inr Si_workflow
   \<and> length (wf_fws Si_workflow) = 4
   \<and> claimed_delta_size (a_adsorption_config main_args) two_placements
         [slab_111, slab_100] = 3
   \<and> get_wf_adsorption module_globals main_args
       = Inl (NameError ''generate_decorated_slabs'', [Si_root])
   \<and> fireworks_run (AddAdsorptionTasks_run_task patched_globals Si_drone) spec_task opt_spec
       = Inl (TypeError ''run_task() takes 1 positional argument'')"
  by code_simp

section \<open>Properties of the dynamic join\<close>

subsection \<open>Changes of state\<close>

lemma keeps_shape_fields:
  assumes "keeps_shape f"
  shows "node_id (f x) = node_id x" and "dependencies (f x) = dependencies x"
    and "spawned_by (f x) = spawned_by x"
  using assms unfolding keeps_shape_def by blast+

lemma shape_ops:
  "keeps_shape (set_node n st)" "keeps_shape (refresh_node r ag G)" "keeps_shape fail_node"
  "keeps_shape (upstream_failed G n)"
  by (simp_all add: keeps_shape_def set_node_def refresh_node_def fail_node_def
        upstream_failed_def)

lemma state_set_node: "state (set_node n st x) = (if node_id x = n then st else state x)"
  by (simp add: set_node_def)

lemma state_refresh_node:
  "state (refresh_node r ag G x)
   = (if state x = Pending
         \<and> (if node_id x = ag then frontier_closed G r ag else deps_completed G x)
      then Ready else state x)"
  by (simp add: refresh_node_def)

lemma state_fail_node:
  "state (fail_node x)
   = (if state x = Pending \<or> state x = Ready \<or> state x = Running then Failed else state x)"
  by (simp add: fail_node_def)

lemma state_upstream_failed:
  "state (upstream_failed G n x)
   = (if node_id x = n \<or> (state x = Pending \<and> (n, node_id x) \<in> (set (dep_edges G))\<^sup>+)
      then Failed else state x)"
  by (simp add: upstream_failed_def)

lemma has_state_unique:
  "distinct (map node_id G) \<Longrightarrow> has_state G n st \<Longrightarrow> has_state G n st' \<Longrightarrow> st = st'"
  by (auto simp: has_state_def distinct_map dest: inj_onD)

lemma has_state_id: "has_state G n st \<Longrightarrow> n \<in> set (map node_id G)"
  by (auto simp: has_state_def)

lemma has_state_map:
  assumes "keeps_shape f"
  shows "has_state (map f G) n st \<longleftrightarrow> (\<exists>x \<in> set G. node_id x = n \<and> state (f x) = st)"
  by (simp add: has_state_def keeps_shape_fields [OF assms])

lemma others_completed_map:
  assumes "keeps_shape f"
  shows "others_completed ag (map f G)
         \<longleftrightarrow> (\<forall>x \<in> set G. node_id x \<noteq> ag \<longrightarrow> state (f x) = Completed)"
  by (simp add: others_completed_def keeps_shape_fields [OF assms])

lemma ids_map: "keeps_shape f \<Longrightarrow> map node_id (map f G) = map node_id G"
  by (simp add: keeps_shape_fields)

lemma dep_edges_map: "keeps_shape f \<Longrightarrow> dep_edges (map f G) = dep_edges G"
  by (simp add: dep_edges_def keeps_shape_fields comp_def)

lemma spawn_edges_map: "keeps_shape f \<Longrightarrow> spawn_edges (map f G) = spawn_edges G"
  by (simp add: spawn_edges_def keeps_shape_fields comp_def cong: option.case_cong)

lemma spawned_from_map: "keeps_shape f \<Longrightarrow> spawned_from (map f G) r n = spawned_from G r n"
  by (simp add: spawned_from_def spawn_edges_map)

lemma is_descendant_map: "keeps_shape f \<Longrightarrow> is_descendant (map f G) r n = is_descendant G r n"
  by (simp add: is_descendant_def spawn_edges_map dep_edges_map)

lemma sound_graph_map:
  assumes "keeps_shape f" and "sound_graph r ag G"
  shows "sound_graph r ag (map f G)"
  using assms(2) unfolding sound_graph_def ids_map [OF assms(1)]
  by (simp add: spawned_from_map [OF assms(1)] keeps_shape_fields [OF assms(1)])

lemma sound_graph_ops:
  assumes "sound_graph r ag G"
  shows "sound_graph r ag (set_state n st G)" and "sound_graph r ag (refresh r ag G)"
    and "sound_graph r ag (fail_run G)" and "sound_graph r ag (mark_failed G n)"
  unfolding set_state_def refresh_def fail_run_def mark_failed_def
  by (rule sound_graph_map [OF _ assms], rule shape_ops)+

lemma ids_ops:
  "map node_id (set_state n st G) = map node_id G"
  "map node_id (refresh r ag G) = map node_id G"
  "map node_id (fail_run G) = map node_id G"
  "map node_id (mark_failed G n) = map node_id G"
  unfolding set_state_def refresh_def fail_run_def mark_failed_def
  by (rule ids_map, rule shape_ops)+

lemma frontier_closed_map:
  assumes "keeps_shape f"
  shows "frontier_closed (map f G) r ag \<longleftrightarrow>
     (\<forall>x \<in> set G. (node_id x = r \<or> is_descendant G r (node_id x)) \<and> node_id x \<noteq> ag
        \<longrightarrow> state (f x) = Completed)
     \<and> (\<forall>x \<in> set G. spawned_from G r (node_id x)
        \<longrightarrow> state (f x) \<noteq> Running \<and> state (f x) \<noteq> Pending)"
  by (simp add: frontier_closed_def keeps_shape_fields [OF assms] is_descendant_map [OF assms]
        spawned_from_map [OF assms])

subsection \<open>Closed frontiers and sound graphs\<close>

lemma spawn_edges_mem:
  "(p, n) \<in> set (spawn_edges G) \<longleftrightarrow> (\<exists>x \<in> set G. node_id x = n \<and> spawned_by x = Some p)"
  by (induction G) (auto simp: spawn_edges_def split: option.splits)

lemma spawned_from_last:
  assumes "spawned_from G r n"
  shows "\<exists>x \<in> set G. node_id x = n \<and> spawned_by x \<noteq> None"
proof -
  from assms obtain p where "(p, n) \<in> set (spawn_edges G)"
    unfolding spawned_from_def by (auto elim: tranclE)
  then show ?thesis
    by (auto simp: spawn_edges_mem)
qed

lemma spawned_from_descendant: "spawned_from G r n \<Longrightarrow> is_descendant G r n"
  unfolding spawned_from_def is_descendant_def
  by (rule trancl_mono) auto

lemma closed_others_completed:
  assumes "sound_graph r ag G" and "frontier_closed G r ag"
  shows "others_completed ag G"
  unfolding others_completed_def
proof (intro ballI impI)
  fix x assume x: "x \<in> set G" "node_id x \<noteq> ag"
  have "node_id x = r \<or> is_descendant G r (node_id x)"
    using assms(1) x spawned_from_descendant unfolding sound_graph_def by blast
  with assms(2) x show "state x = Completed"
    unfolding frontier_closed_def by blast
qed

lemma others_completed_closed:
  assumes "sound_graph r ag G" and "others_completed ag G"
  shows "frontier_closed G r ag"
proof -
  have a: "state x = Completed"
    if "x \<in> set G" "(node_id x = r \<or> is_descendant G r (node_id x)) \<and> node_id x \<noteq> ag" for x
    using that assms(2) unfolding others_completed_def by blast
  have b: "state x \<noteq> Running \<and> state x \<noteq> Pending"
    if x: "x \<in> set G" "spawned_from G r (node_id x)" for x
  proof -
    from spawned_from_last [OF x(2)] obtain y where
      y: "y \<in> set G" "node_id y = node_id x" "spawned_by y \<noteq> None" by blast
    have "\<forall>z \<in> set G. node_id z = ag \<longrightarrow> spawned_by z = None"
      using assms(1) unfolding sound_graph_def by blast
    with y have "node_id x \<noteq> ag"
      by metis
    with assms(2) x(1) have "state x = Completed"
      unfolding others_completed_def by blast
    then show ?thesis
      by simp
  qed
  show ?thesis
    unfolding frontier_closed_def using a b by blast
qed

lemma spawn_edges_append: "spawn_edges (G @ H) = spawn_edges G @ spawn_edges H"
  by (simp add: spawn_edges_def)

lemma ids_new_nodes: "map node_id (new_nodes n delta) = map fst delta"
  by (simp add: new_nodes_def comp_def case_prod_unfold)

lemma new_nodes_fields:
  "x \<in> set (new_nodes n delta) \<Longrightarrow> spawned_by x = Some n \<and> state x = Pending"
  by (auto simp: new_nodes_def)

lemma spawned_from_append:
  "spawned_from G r m \<Longrightarrow> spawned_from (G @ H) r m"
  unfolding spawned_from_def
  by (rule trancl_mono) (auto simp: spawn_edges_append)

lemma sound_graph_insert:
  assumes G: "sound_graph r ag G"
    and fresh: "distinct (map fst delta)" "\<forall>i \<in> set (map fst delta). i \<notin> set (map node_id G)"
    and origin: "delta \<noteq> [] \<longrightarrow> n = r \<or> spawned_from G r n"
  shows "sound_graph r ag (G @ new_nodes n delta)"
  unfolding sound_graph_def
proof (intro conjI ballI impI)
  have "set (map node_id G) \<inter> set (map fst delta) = {}"
    using fresh(2) by blast
  moreover have "distinct (map node_id G)"
    using G unfolding sound_graph_def by blast
  ultimately show "distinct (map node_id (G @ new_nodes n delta))"
    using fresh(1) by (simp add: ids_new_nodes)
next
  show "r \<in> set (map node_id (G @ new_nodes n delta))"
    using G unfolding sound_graph_def by simp
next
  show "ag \<in> set (map node_id (G @ new_nodes n delta))"
    using G unfolding sound_graph_def by simp
next
  fix x assume x: "x \<in> set (G @ new_nodes n delta)" "node_id x = ag"
  have "x \<notin> set (new_nodes n delta)"
  proof
    assume "x \<in> set (new_nodes n delta)"
    then have "node_id x \<in> set (map node_id (new_nodes n delta))"
      by simp
    then have "node_id x \<in> set (map fst delta)"
      unfolding ids_new_nodes .
    with fresh(2) x(2) G show False
      unfolding sound_graph_def by blast
  qed
  with x G show "spawned_by x = None"
    unfolding sound_graph_def by auto
next
  fix x assume x: "x \<in> set (G @ new_nodes n delta)" "node_id x \<noteq> r \<and> node_id x \<noteq> ag"
  show "spawned_from (G @ new_nodes n delta) r (node_id x)"
  proof (cases "x \<in> set G")
    case True
    with x G have "spawned_from G r (node_id x)"
      unfolding sound_graph_def by blast
    then show ?thesis by (rule spawned_from_append)
  next
    case False
    with x have new: "x \<in> set (new_nodes n delta)" by simp
    then have "delta \<noteq> []" by (auto simp: new_nodes_def)
    from new have "spawned_by x = Some n"
      using new_nodes_fields by blast
    with x(1) have edge: "(n, node_id x) \<in> set (spawn_edges (G @ new_nodes n delta))"
      by (auto simp: spawn_edges_mem)
    from origin \<open>delta \<noteq> []\<close> consider "n = r" | "spawned_from G r n" by blast
    then show ?thesis
    proof cases
      case 1
      with edge show ?thesis
        unfolding spawned_from_def by blast
    next
      case 2
      then have "spawned_from (G @ new_nodes n delta) r n"
        by (rule spawned_from_append)
      with edge show ?thesis
        unfolding spawned_from_def by (blast intro: trancl_into_trancl)
    qed
  qed
qed

lemma insert_delta_Inr:
  assumes "insert_delta r ag G n delta = Inr G'"
  shows "G' = refresh r ag (G @ new_nodes n delta)"
    and "distinct (map fst delta)" and "\<forall>i \<in> set (map fst delta). i \<notin> set (map node_id G)"
  using assms unfolding insert_delta_def Let_def
  by (auto split: if_splits)

lemma sound_graph_initial: "r \<noteq> ag \<Longrightarrow> sound_graph r ag (initial_graph r ag)"
  by (simp add: sound_graph_def initial_graph_def)

subsection \<open>The operations of the scheduler\<close>

lemma sound_distinct: "sound_graph r ag G \<Longrightarrow> distinct (map node_id G)"
  unfolding sound_graph_def by blast

lemma closed_iff_completed:
  "sound_graph r ag G \<Longrightarrow> frontier_closed G r ag \<longleftrightarrow> others_completed ag G"
  using closed_others_completed others_completed_closed by blast

text \<open>What each operation does to the state of a node.\<close>

lemma has_state_set_state_same:
  "n \<in> set (map node_id G) \<Longrightarrow> has_state (set_state n st G) n st"
  unfolding set_state_def has_state_map [OF shape_ops(1)]
  by (auto simp: state_set_node)

lemma has_state_set_state_other:
  "m \<noteq> n \<Longrightarrow> has_state (set_state n st G) m s \<longleftrightarrow> has_state G m s"
  unfolding set_state_def has_state_map [OF shape_ops(1)]
  by (auto simp: state_set_node has_state_def)

lemma has_state_refresh_keep:
  "s \<noteq> Pending \<Longrightarrow> has_state G m s \<Longrightarrow> has_state (refresh r ag G) m s"
  unfolding refresh_def has_state_map [OF shape_ops(2)]
  by (auto simp: state_refresh_node has_state_def)

lemma has_state_refresh_Pending:
  "has_state (refresh r ag G) m Pending \<Longrightarrow> has_state G m Pending"
  unfolding refresh_def has_state_map [OF shape_ops(2)]
  by (auto simp: state_refresh_node has_state_def split: if_splits)

lemma refresh_agg:
  assumes "has_state G ag Pending"
  shows "has_state (refresh r ag G) ag (if frontier_closed G r ag then Ready else Pending)"
proof -
  from assms obtain x where "x \<in> set G" "node_id x = ag" "state x = Pending"
    unfolding has_state_def by blast
  then show ?thesis
    unfolding refresh_def has_state_map [OF shape_ops(2)]
    by (intro bexI [of _ x]) (simp_all add: state_refresh_node)
qed

lemma others_completed_refresh:
  "others_completed ag (refresh r ag G) \<longleftrightarrow> others_completed ag G"
  unfolding refresh_def others_completed_map [OF shape_ops(2)]
  by (auto simp: state_refresh_node others_completed_def split: if_splits)

lemma others_completed_set_state:
  "others_completed ag G \<Longrightarrow> others_completed ag (set_state ag st G)"
  unfolding set_state_def others_completed_map [OF shape_ops(1)]
  by (simp add: state_set_node others_completed_def)

lemma others_completed_fail_run:
  "others_completed ag G \<Longrightarrow> others_completed ag (fail_run G)"
  unfolding fail_run_def others_completed_map [OF shape_ops(3)]
  by (simp add: state_fail_node others_completed_def)

lemma others_completed_mark_failed:
  "others_completed ag G \<Longrightarrow> others_completed ag (mark_failed G ag)"
  unfolding mark_failed_def others_completed_map [OF shape_ops(4)]
  by (simp add: state_upstream_failed others_completed_def)

lemma no_Pending_fail_run: "\<not> has_state (fail_run G) m Pending"
  unfolding fail_run_def has_state_map [OF shape_ops(3)]
  by (simp add: state_fail_node)

lemma has_state_fail_run_Failed:
  "has_state G m s \<Longrightarrow> s \<noteq> Completed \<Longrightarrow> has_state (fail_run G) m Failed"
  unfolding fail_run_def has_state_map [OF shape_ops(3)]
  by (cases s) (auto simp: state_fail_node has_state_def)

lemma Pending_mark_failed:
  "has_state (mark_failed G n) m Pending \<Longrightarrow> has_state G m Pending"
  unfolding mark_failed_def has_state_map [OF shape_ops(4)]
  by (auto simp: state_upstream_failed has_state_def split: if_splits)

lemma has_state_mark_failed_same:
  "n \<in> set (map node_id G) \<Longrightarrow> has_state (mark_failed G n) n Failed"
  unfolding mark_failed_def has_state_map [OF shape_ops(4)]
  by (auto simp: state_upstream_failed)

lemma has_state_mark_failed_Failed:
  "has_state G m Failed \<Longrightarrow> has_state (mark_failed G n) m Failed"
  unfolding mark_failed_def has_state_map [OF shape_ops(4)]
  by (auto simp: state_upstream_failed has_state_def)

lemma has_state_mark_failed_Pending:
  "has_state G m Pending \<Longrightarrow>
   has_state (mark_failed G n) m Pending \<or> has_state (mark_failed G n) m Failed"
  unfolding mark_failed_def has_state_map [OF shape_ops(4)]
  by (auto simp: state_upstream_failed has_state_def)

lemma has_state_append: "has_state G m s \<Longrightarrow> has_state (G @ H) m s"
  by (auto simp: has_state_def)

subsection \<open>One event\<close>

lemma origin_spawned:
  assumes G: "sound_graph r ag G" and n: "has_state G n st" and "n \<noteq> ag"
  shows "n = r \<or> spawned_from G r n"
proof -
  from n obtain x where "x \<in> set G" "node_id x = n"
    unfolding has_state_def by blast
  with G \<open>n \<noteq> ag\<close> show ?thesis
    unfolding sound_graph_def by blast
qed

lemma step_sound:
  assumes G: "sound_graph r ag G" and step: "step r ag ev G = Some G'"
    and tm: "terminal_at ag ev"
  shows "sound_graph r ag G'"
proof (cases ev)
  case (Dispatch n)
  with step have "G' = set_state n Running G"
    by (simp split: if_splits)
  then show ?thesis
    using sound_graph_ops(1) [OF G] by simp
next
  case (Complete n delta)
  with step have run: "has_state G n Running"
    by (simp split: if_splits)
  show ?thesis
  proof (cases "insert_delta r ag G n delta")
    case (Inl e)
    with step Complete run have "G' = fail_run G"
      by simp
    then show ?thesis
      using sound_graph_ops(3) [OF G] by simp
  next
    case (Inr G1)
    with step Complete run have G': "G' = mark_completed r ag G1 n"
      by simp
    have origin: "delta \<noteq> [] \<longrightarrow> n = r \<or> spawned_from G r n"
    proof
      assume "delta \<noteq> []"
      with tm Complete have "n \<noteq> ag" by simp
      with origin_spawned [OF G run] show "n = r \<or> spawned_from G r n" .
    qed
    from insert_delta_Inr [OF Inr] sound_graph_insert [OF G _ _ origin]
    have "sound_graph r ag (G @ new_nodes n delta)" "G1 = refresh r ag (G @ new_nodes n delta)"
      by blast+
    then have "sound_graph r ag G1"
      using sound_graph_ops(2) by blast
    then show ?thesis
      unfolding G' mark_completed_def
      by (intro sound_graph_ops)
  qed
next
  case (Fail n)
  with step have "G' = mark_failed G n"
    by (simp split: if_splits)
  then show ?thesis
    using sound_graph_ops(4) [OF G] by simp
next
  case Cancel
  with step have "G' = fail_run G"
    by simp
  then show ?thesis
    using sound_graph_ops(3) [OF G] by simp
qed

lemma joined_only_agg:
  assumes "joined ag G" and "has_state G n st" and "st \<noteq> Completed"
  shows "n = ag"
  using assms unfolding joined_def others_completed_def has_state_def by blast

lemma joined_step:
  assumes G: "sound_graph r ag G" and j: "joined ag G" and step: "step r ag ev G = Some G'"
    and tm: "terminal_at ag ev"
  shows "joined ag G' \<and> map node_id G' = map node_id G"
proof -
  from j have oc: "others_completed ag G" and np: "\<not> has_state G ag Pending"
    unfolding joined_def by blast+
  show ?thesis
  proof (cases ev)
    case (Dispatch n)
    with step have r: "has_state G n Ready" and G': "G' = set_state n Running G"
      by (simp_all split: if_splits)
    from joined_only_agg [OF j r] have n: "n = ag" by simp
    have "has_state G' ag Running"
      unfolding G' n using has_state_id [OF r] n by (intro has_state_set_state_same) simp
    moreover have "distinct (map node_id G')"
      unfolding G' ids_ops using sound_distinct [OF G] .
    ultimately have "\<not> has_state G' ag Pending"
      by (blast dest: has_state_unique)
    then show ?thesis
      unfolding joined_def G' n ids_ops using others_completed_set_state [OF oc] by simp
  next
    case (Complete n delta)
    with step have r: "has_state G n Running"
      by (simp split: if_splits)
    from joined_only_agg [OF j r] have n: "n = ag" by simp
    with tm Complete have delta: "delta = []" by simp
    show ?thesis
    proof (cases "insert_delta r ag G n delta")
      case (Inl e)
      with step Complete r have G': "G' = fail_run G"
        by simp
      show ?thesis
        unfolding joined_def G' ids_ops
        using others_completed_fail_run [OF oc] no_Pending_fail_run by simp
    next
      case (Inr G1)
      with step Complete r have G': "G' = mark_completed r ag G1 n"
        by simp
      from insert_delta_Inr(1) [OF Inr] delta have G1: "G1 = refresh r ag G"
        by (simp add: new_nodes_def)
      have 1: "others_completed ag (set_state ag Completed G1)"
        unfolding G1 using oc others_completed_refresh others_completed_set_state by blast
      have "ag \<in> set (map node_id G1)"
        unfolding G1 ids_ops using G unfolding sound_graph_def by blast
      then have 2: "has_state (set_state ag Completed G1) ag Completed"
        by (rule has_state_set_state_same)
      then have 3: "has_state G' ag Completed"
        unfolding G' mark_completed_def n by (intro has_state_refresh_keep) simp_all
      have "distinct (map node_id G')"
        unfolding G' mark_completed_def G1 ids_ops using sound_distinct [OF G] .
      with 3 have "\<not> has_state G' ag Pending"
        by (blast dest: has_state_unique)
      moreover have "others_completed ag G'"
        unfolding G' mark_completed_def n others_completed_refresh using 1 .
      ultimately show ?thesis
        unfolding joined_def G' mark_completed_def G1 ids_ops by simp
    qed
  next
    case (Fail n)
    with step have r: "has_state G n Running" and G': "G' = mark_failed G n"
      by (simp_all split: if_splits)
    from joined_only_agg [OF j r] have n: "n = ag" by simp
    have "\<not> has_state G' ag Pending"
      unfolding G' using np Pending_mark_failed by blast
    then show ?thesis
      unfolding joined_def G' n ids_ops using others_completed_mark_failed [OF oc] n by simp
  next
    case Cancel
    with step have G': "G' = fail_run G"
      by simp
    show ?thesis
      unfolding joined_def G' ids_ops
      using others_completed_fail_run [OF oc] no_Pending_fail_run by simp
  qed
qed

lemma has_state_other:
  "distinct (map node_id G) \<Longrightarrow> has_state G n st \<Longrightarrow> st' \<noteq> st \<Longrightarrow> \<not> has_state G n st'"
  by (blast dest: has_state_unique)

lemma Failed_stable:
  assumes d: "distinct (map node_id G)" and step: "step r ag ev G = Some G'"
    and f: "has_state G m Failed"
  shows "has_state G' m Failed"
proof (cases ev)
  case (Dispatch n)
  with step have r: "has_state G n Ready" and G': "G' = set_state n Running G"
    by (simp_all split: if_splits)
  from has_state_other [OF d r, of Failed] f have "m \<noteq> n" by auto
  then show ?thesis
    unfolding G' using f by (simp add: has_state_set_state_other)
next
  case (Complete n delta)
  with step have r: "has_state G n Running"
    by (simp split: if_splits)
  from has_state_other [OF d r, of Failed] f have mn: "m \<noteq> n" by auto
  show ?thesis
  proof (cases "insert_delta r ag G n delta")
    case (Inl e)
    with step Complete r have "G' = fail_run G"
      by simp
    then show ?thesis
      using has_state_fail_run_Failed [OF f] by simp
  next
    case (Inr G1)
    with step Complete r have G': "G' = mark_completed r ag G1 n"
      by simp
    from insert_delta_Inr(1) [OF Inr] have G1: "G1 = refresh r ag (G @ new_nodes n delta)" .
    have "has_state G1 m Failed"
      unfolding G1 using f by (intro has_state_refresh_keep has_state_append) simp_all
    then have "has_state (set_state n Completed G1) m Failed"
      using mn by (simp add: has_state_set_state_other)
    then show ?thesis
      unfolding G' mark_completed_def by (intro has_state_refresh_keep) simp_all
  qed
next
  case (Fail n)
  with step have "G' = mark_failed G n"
    by (simp split: if_splits)
  then show ?thesis
    using has_state_mark_failed_Failed [OF f] by simp
next
  case Cancel
  with step have "G' = fail_run G"
    by simp
  then show ?thesis
    using has_state_fail_run_Failed [OF f] by simp
qed

lemma dead_not_completed:
  assumes "dead ag G"
  shows "\<not> others_completed ag G"
  using assms unfolding dead_def others_completed_def by fastforce

lemma dead_not_Pending:
  assumes "distinct (map node_id G)" and "dead ag G"
  shows "\<not> has_state G ag Pending" and "\<not> has_state G ag Ready"
proof -
  from assms(2) have "has_state G ag Failed"
    unfolding dead_def by blast
  from has_state_other [OF assms(1) this]
  show "\<not> has_state G ag Pending" and "\<not> has_state G ag Ready"
    by simp_all
qed

lemma dead_step:
  assumes d: "distinct (map node_id G)" and dd: "dead ag G" and step: "step r ag ev G = Some G'"
  shows "dead ag G'"
proof -
  from dd obtain x where x: "x \<in> set G" "node_id x \<noteq> ag" "state x = Failed"
    and a: "has_state G ag Failed"
    unfolding dead_def by blast
  from x have "has_state G (node_id x) Failed"
    unfolding has_state_def by blast
  from Failed_stable [OF d step this] obtain y where
    "y \<in> set G'" "node_id y = node_id x" "state y = Failed"
    unfolding has_state_def by blast
  with x(2) have "\<exists>y \<in> set G'. node_id y \<noteq> ag \<and> state y = Failed"
    by metis
  with Failed_stable [OF d step a] show ?thesis
    unfolding dead_def by simp
qed

lemma waiting_not_Ready:
  assumes "distinct (map node_id G)" and "has_state G ag Pending"
  shows "\<not> has_state G ag Ready" and "\<not> has_state G ag Running"
    and "\<not> has_state G ag Failed"
  using has_state_other [OF assms] by simp_all

lemma running_not_completed:
  assumes "has_state G n st" and "st \<noteq> Completed" and "n \<noteq> ag"
    and "distinct (map node_id G)"
  shows "\<not> others_completed ag G"
  using assms unfolding others_completed_def has_state_def by blast

lemma failed_run_dead:
  assumes d: "distinct (map node_id G)" and w: "waiting ag G"
  shows "dead ag (fail_run G)"
proof -
  from w obtain x where x: "x \<in> set G" "node_id x \<noteq> ag" "state x \<noteq> Completed"
    and a: "has_state G ag Pending"
    unfolding waiting_def others_completed_def by blast
  from x have "has_state G (node_id x) (state x)"
    unfolding has_state_def by blast
  from has_state_fail_run_Failed [OF this x(3)] obtain y where
    "y \<in> set (fail_run G)" "node_id y = node_id x" "state y = Failed"
    unfolding has_state_def by blast
  with x(2) have "\<exists>y \<in> set (fail_run G). node_id y \<noteq> ag \<and> state y = Failed"
    by metis
  with has_state_fail_run_Failed [OF a] show ?thesis
    unfolding dead_def by simp
qed

lemma waiting_step:
  assumes G: "sound_graph r ag G" and w: "waiting ag G" and step: "step r ag ev G = Some G'"
  shows "(waiting ag G' \<and> \<not> has_state G' ag Ready)
       \<or> (dead ag G' \<and> \<not> has_state G' ag Ready)
       \<or> (joined ag G' \<and> frontier_closed G' r ag \<and> has_state G' ag Ready)"
proof -
  note d = sound_distinct [OF G]
  from w have a: "has_state G ag Pending" and noc: "\<not> others_completed ag G"
    unfolding waiting_def by blast+
  show ?thesis
  proof (cases ev)
    case (Dispatch n)
    with step have r: "has_state G n Ready" and G': "G' = set_state n Running G"
      by (simp_all split: if_splits)
    from waiting_not_Ready(1) [OF d a] r have n: "n \<noteq> ag" by blast
    have a': "has_state G' ag Pending"
      unfolding G' using a n by (simp add: has_state_set_state_other)
    have d': "distinct (map node_id G')"
      unfolding G' ids_ops using d .
    have "has_state G' n Running"
      unfolding G' using has_state_id [OF r] by (rule has_state_set_state_same)
    from running_not_completed [OF this _ n d'] have "\<not> others_completed ag G'"
      by simp
    with a' waiting_not_Ready(1) [OF d' a'] show ?thesis
      unfolding waiting_def by blast
  next
    case (Fail n)
    with step have r: "has_state G n Running" and G': "G' = mark_failed G n"
      by (simp_all split: if_splits)
    from waiting_not_Ready(2) [OF d a] r have n: "n \<noteq> ag" by blast
    have d': "distinct (map node_id G')"
      unfolding G' ids_ops using d .
    have f: "has_state G' n Failed"
      unfolding G' using has_state_id [OF r] by (rule has_state_mark_failed_same)
    from running_not_completed [OF this _ n d'] have noc': "\<not> others_completed ag G'"
      by simp
    from has_state_mark_failed_Pending [OF a, of n]
    consider "has_state G' ag Pending" | "has_state G' ag Failed"
      unfolding G' by blast
    then show ?thesis
    proof cases
      case 1
      with noc' waiting_not_Ready(1) [OF d' 1] show ?thesis
        unfolding waiting_def by blast
    next
      case 2
      from f obtain y where "y \<in> set G'" "node_id y = n" "state y = Failed"
        unfolding has_state_def by blast
      with n have "\<exists>x \<in> set G'. node_id x \<noteq> ag \<and> state x = Failed"
        by metis
      with 2 have dd: "dead ag G'"
        unfolding dead_def by blast
      with dead_not_Pending(2) [OF d' dd] show ?thesis by blast
    qed
  next
    case Cancel
    with step have G': "G' = fail_run G"
      by simp
    have d': "distinct (map node_id G')"
      unfolding G' ids_ops using d .
    have dd: "dead ag G'"
      unfolding G' using failed_run_dead [OF d w] .
    with dead_not_Pending(2) [OF d' dd] show ?thesis by blast
  next
    case (Complete n delta)
    with step have r: "has_state G n Running"
      by (simp split: if_splits)
    from waiting_not_Ready(2) [OF d a] r have n: "n \<noteq> ag" by blast
    show ?thesis
    proof (cases "insert_delta r ag G n delta")
      case (Inl e)
      with step Complete r have G': "G' = fail_run G"
        by simp
      have d': "distinct (map node_id G')"
        unfolding G' ids_ops using d .
      have dd: "dead ag G'"
        unfolding G' using failed_run_dead [OF d w] .
      with dead_not_Pending(2) [OF d' dd] show ?thesis by blast
    next
      case (Inr G1)
      with step Complete r have G': "G' = mark_completed r ag G1 n"
        by simp
      have tm: "terminal_at ag ev"
        using Complete n by simp
      note s' = step_sound [OF G step tm]
      note d' = sound_distinct [OF s']
      define G0 where "G0 = G @ new_nodes n delta"
      define G2 where "G2 = set_state n Completed G1"
      from insert_delta_Inr [OF Inr] have G1: "G1 = refresh r ag G0"
        and fresh: "distinct (map fst delta)"
          "\<forall>i \<in> set (map fst delta). i \<notin> set (map node_id G)"
        unfolding G0_def by blast+
      have s0: "sound_graph r ag G0"
        unfolding G0_def
        using sound_graph_insert [OF G fresh] origin_spawned [OF G r n] by blast
      have r0: "has_state G0 n Running" and a0: "has_state G0 ag Pending"
        unfolding G0_def using r a by (simp_all add: has_state_append)
      from running_not_completed [OF r0 _ n sound_distinct [OF s0]]
      have "\<not> frontier_closed G0 r ag"
        unfolding closed_iff_completed [OF s0] by simp
      with refresh_agg [OF a0, of r] have a1: "has_state G1 ag Pending"
        unfolding G1 by simp
      have s2: "sound_graph r ag G2"
        unfolding G2_def G1 using s0 sound_graph_ops by blast
      have a2: "has_state G2 ag Pending"
        unfolding G2_def using a1 n by (simp add: has_state_set_state_other)
      have G'2: "G' = refresh r ag G2"
        unfolding G' mark_completed_def G2_def ..
      show ?thesis
      proof (cases "frontier_closed G2 r ag")
        case True
        with refresh_agg [OF a2, of r] have rdy: "has_state G' ag Ready"
          unfolding G'2 by simp
        from True have "others_completed ag G2"
          unfolding closed_iff_completed [OF s2] .
        then have oc: "others_completed ag G'"
          unfolding G'2 others_completed_refresh .
        then have "frontier_closed G' r ag"
          unfolding closed_iff_completed [OF s'] .
        moreover have "\<not> has_state G' ag Pending"
          using has_state_other [OF d' rdy] by simp
        ultimately show ?thesis
          using rdy oc unfolding joined_def by blast
      next
        case False
        with refresh_agg [OF a2, of r] have p: "has_state G' ag Pending"
          unfolding G'2 by simp
        from False have "\<not> others_completed ag G2"
          unfolding closed_iff_completed [OF s2] .
        then have "\<not> others_completed ag G'"
          unfolding G'2 others_completed_refresh .
        with p waiting_not_Ready(1) [OF d' p] show ?thesis
          unfolding waiting_def by blast
      qed
    qed
  qed
qed

subsection \<open>Runs\<close>

lemma run_Cons:
  assumes "run r ag (ev # evs) G = Some tr"
  obtains G' tr' where "step r ag ev G = Some G'" and "run r ag evs G' = Some tr'"
    and "tr = G # tr'"
  using assms by (auto split: option.splits)

lemma run_head:
  assumes "run r ag evs G = Some tr"
  obtains rest where "tr = G # rest"
  using assms by (cases evs) (auto split: option.splits)

lemma ready_count_0:
  "\<forall>t \<in> set tr. \<not> has_state t ag Pending \<Longrightarrow> ready_count ag tr = 0"
  by (induction ag tr rule: ready_count.induct) (simp_all add: becomes_ready_def)

lemma no_pair_becomes_ready:
  assumes "\<forall>t \<in> set tr. \<not> has_state t ag Pending" and "tr = pre @ s # s' # post"
  shows "\<not> becomes_ready ag s s'"
  using assms unfolding becomes_ready_def by simp

lemma agg_terminal_Cons:
  "agg_terminal ag (ev # evs) \<longleftrightarrow> terminal_at ag ev \<and> agg_terminal ag evs"
  by (simp add: agg_terminal_def)

lemma run_joined:
  assumes "sound_graph r ag G" and "joined ag G" and "agg_terminal ag evs"
    and "run r ag evs G = Some tr"
  shows "\<forall>t \<in> set tr. map node_id t = map node_id G \<and> others_completed ag t
           \<and> \<not> has_state t ag Pending"
  using assms
proof (induction evs arbitrary: G tr)
  case Nil
  then show ?case by (auto simp: joined_def)
next
  case (Cons ev evs)
  from Cons.prems(4) obtain G' tr' where
    step: "step r ag ev G = Some G'" and rest: "run r ag evs G' = Some tr'" and
    tr: "tr = G # tr'"
    by (rule run_Cons)
  from Cons.prems(3) have tm: "terminal_at ag ev" and tms: "agg_terminal ag evs"
    by (simp_all add: agg_terminal_Cons)
  from joined_step [OF Cons.prems(1,2) step tm] have
    j': "joined ag G'" and ids: "map node_id G' = map node_id G" by blast+
  from Cons.IH [OF step_sound [OF Cons.prems(1) step tm] j' tms rest] ids Cons.prems(2)
  show ?case
    unfolding tr by (simp add: joined_def)
qed

lemma run_dead:
  assumes "sound_graph r ag G" and "dead ag G" and "agg_terminal ag evs"
    and "run r ag evs G = Some tr"
  shows "\<forall>t \<in> set tr. \<not> others_completed ag t \<and> \<not> has_state t ag Pending"
  using assms
proof (induction evs arbitrary: G tr)
  case Nil
  from Nil.prems(4) have tr: "tr = [G]" by simp
  from dead_not_completed [OF Nil.prems(2)]
    dead_not_Pending(1) [OF sound_distinct [OF Nil.prems(1)] Nil.prems(2)]
  show ?case
    unfolding tr by simp
next
  case (Cons ev evs)
  from Cons.prems(4) obtain G' tr' where
    step: "step r ag ev G = Some G'" and rest: "run r ag evs G' = Some tr'" and
    tr: "tr = G # tr'"
    by (rule run_Cons)
  from Cons.prems(3) have tm: "terminal_at ag ev" and tms: "agg_terminal ag evs"
    by (simp_all add: agg_terminal_Cons)
  note d = sound_distinct [OF Cons.prems(1)]
  from Cons.IH [OF step_sound [OF Cons.prems(1) step tm] dead_step [OF d Cons.prems(2) step]
      tms rest]
    dead_not_completed [OF Cons.prems(2)] dead_not_Pending(1) [OF d Cons.prems(2)]
  show ?case
    unfolding tr by simp
qed

lemma pair_split:
  assumes "G # G' # rest = pre @ s # s' # post"
  shows "(pre = [] \<and> s = G \<and> s' = G' \<and> post = rest)
       \<or> (\<exists>pre'. pre = G # pre' \<and> G' # rest = pre' @ s # s' # post)"
  using assms by (cases pre) auto

lemma ready_once_later:
  assumes once: "ready_once r ag (G' # rest)" and nb: "\<not> becomes_ready ag G G'"
  shows "ready_once r ag (G # G' # rest)"
  unfolding ready_once_def
proof (intro conjI)
  show "ready_count ag (G # G' # rest) \<le> 1"
    using once nb unfolding ready_once_def by simp
next
  show "\<forall>pre s s' post. G # G' # rest = pre @ s # s' # post \<and> becomes_ready ag s s' \<longrightarrow>
          frontier_closed s' r ag
          \<and> (\<forall>t \<in> set (s' # post). map node_id t = map node_id s' \<and> others_completed ag t)"
  proof (intro allI impI)
    fix pre s s' post
    assume h: "G # G' # rest = pre @ s # s' # post \<and> becomes_ready ag s s'"
    with pair_split [of G G' rest pre s s' post] nb obtain pre' where
      "G' # rest = pre' @ s # s' # post" by blast
    with once h show "frontier_closed s' r ag
        \<and> (\<forall>t \<in> set (s' # post). map node_id t = map node_id s' \<and> others_completed ag t)"
      unfolding ready_once_def by blast
  qed
next
  show "others_completed ag (last (G # G' # rest)) \<longrightarrow> ready_count ag (G # G' # rest) = 1"
  proof
    assume "others_completed ag (last (G # G' # rest))"
    then have "others_completed ag (last (G' # rest))" by simp
    with once nb show "ready_count ag (G # G' # rest) = 1"
      unfolding ready_once_def by simp
  qed
qed

lemma ready_once_never:
  assumes all: "\<forall>t \<in> set tr. \<not> others_completed ag t \<and> \<not> has_state t ag Pending"
    and ne: "tr \<noteq> []"
  shows "ready_once r ag tr"
  unfolding ready_once_def
proof (intro conjI)
  have "ready_count ag tr = 0"
    using all by (intro ready_count_0) blast
  then show "ready_count ag tr \<le> 1" by simp
next
  have np: "\<forall>t \<in> set tr. \<not> has_state t ag Pending"
    using all by blast
  show "\<forall>pre s s' post. tr = pre @ s # s' # post \<and> becomes_ready ag s s' \<longrightarrow>
          frontier_closed s' r ag
          \<and> (\<forall>t \<in> set (s' # post). map node_id t = map node_id s' \<and> others_completed ag t)"
    using no_pair_becomes_ready [OF np] by blast
next
  have "last tr \<in> set tr"
    using ne by simp
  with all show "others_completed ag (last tr) \<longrightarrow> ready_count ag tr = 1"
    by blast
qed

lemma ready_once_now:
  assumes all: "\<forall>t \<in> set (G' # rest). map node_id t = map node_id G' \<and> others_completed ag t
                  \<and> \<not> has_state t ag Pending"
    and closed: "frontier_closed G' r ag" and b: "becomes_ready ag G G'"
  shows "ready_once r ag (G # G' # rest)"
  unfolding ready_once_def
proof (intro conjI)
  have c0: "ready_count ag (G' # rest) = 0"
    using all by (intro ready_count_0) blast
  with b show "ready_count ag (G # G' # rest) \<le> 1"
    by simp
  from c0 b show "others_completed ag (last (G # G' # rest))
      \<longrightarrow> ready_count ag (G # G' # rest) = 1"
    by simp
next
  have np: "\<forall>t \<in> set (G' # rest). \<not> has_state t ag Pending"
    using all by blast
  show "\<forall>pre s s' post. G # G' # rest = pre @ s # s' # post \<and> becomes_ready ag s s' \<longrightarrow>
          frontier_closed s' r ag
          \<and> (\<forall>t \<in> set (s' # post). map node_id t = map node_id s' \<and> others_completed ag t)"
  proof (intro allI impI)
    fix pre s s' post
    assume h: "G # G' # rest = pre @ s # s' # post \<and> becomes_ready ag s s'"
    from pair_split [of G G' rest pre s s' post] h no_pair_becomes_ready [OF np]
    have "s' = G' \<and> post = rest"
      by blast
    with all closed show "frontier_closed s' r ag
        \<and> (\<forall>t \<in> set (s' # post). map node_id t = map node_id s' \<and> others_completed ag t)"
      by blast
  qed
qed

lemma run_waiting:
  assumes "sound_graph r ag G" and "waiting ag G" and "agg_terminal ag evs"
    and "run r ag evs G = Some tr"
  shows "ready_once r ag tr"
  using assms
proof (induction evs arbitrary: G tr)
  case Nil
  from Nil.prems(2) have "\<forall>t \<in> set [G]. \<not> others_completed ag t" 
    by (simp add: waiting_def)
  moreover from Nil.prems(4) have tr: "tr = [G]" by simp
  ultimately show ?case
    unfolding ready_once_def tr by (simp add: Cons_eq_append_conv)
next
  case (Cons ev evs)
  from Cons.prems(4) obtain G' tr' where
    step: "step r ag ev G = Some G'" and rest: "run r ag evs G' = Some tr'" and
    tr: "tr = G # tr'"
    by (rule run_Cons)
  from rest obtain post' where tr': "tr' = G' # post'"
    by (rule run_head)
  from Cons.prems(3) have tm: "terminal_at ag ev" and tms: "agg_terminal ag evs"
    by (simp_all add: agg_terminal_Cons)
  note s' = step_sound [OF Cons.prems(1) step tm]
  have pend: "has_state G ag Pending"
    using Cons.prems(2) unfolding waiting_def by blast
  from waiting_step [OF Cons.prems(1,2) step]
  consider (w) "waiting ag G'" "\<not> has_state G' ag Ready"
    | (d) "dead ag G'" "\<not> has_state G' ag Ready"
    | (j) "joined ag G'" "frontier_closed G' r ag" "has_state G' ag Ready"
    by blast
  then show ?case
  proof cases
    case w
    from Cons.IH [OF s' w(1) tms rest] have "ready_once r ag (G' # post')"
      unfolding tr' .
    moreover have "\<not> becomes_ready ag G G'"
      using w(2) by (simp add: becomes_ready_def)
    ultimately show ?thesis
      unfolding tr tr' by (rule ready_once_later)
  next
    case d
    from run_dead [OF s' d(1) tms rest] have "ready_once r ag (G' # post')"
      unfolding tr' by (intro ready_once_never) simp_all
    moreover have "\<not> becomes_ready ag G G'"
      using d(2) by (simp add: becomes_ready_def)
    ultimately show ?thesis
      unfolding tr tr' by (rule ready_once_later)
  next
    case j
    from run_joined [OF s' j(1) tms rest] have
      "\<forall>t \<in> set (G' # post'). map node_id t = map node_id G' \<and> others_completed ag t
              \<and> \<not> has_state t ag Pending"
      unfolding tr' .
    moreover have "becomes_ready ag G G'"
      using pend j(3) by (simp add: becomes_ready_def)
    ultimately show ?thesis
      unfolding tr tr' using j(2) by (intro ready_once_now)
  qed
qed

lemma waiting_initial: "r \<noteq> ag \<Longrightarrow> waiting ag (initial_graph r ag)"
  by (simp add: waiting_def initial_graph_def has_state_def others_completed_def)

text \<open>
  C4. In every run of the scheduler that starts with the root and the aggregation
  task, the aggregation task becomes \<open>Ready\<close> at most once, and exactly once when
  the run ends with every other node \<open>Completed\<close>. Where it becomes \<open>Ready\<close>, the
  frontier is closed: the root and every node then known to be a descendant of
  the root are \<open>Completed\<close> and no \<open>Pending\<close> or \<open>Running\<close> node is spawned,
  transitively, by the root. From there on no node is added and every other node
  is \<open>Completed\<close>, so no descendant is spawned or completes after it.
\<close>

theorem aggregation_ready_once:
  assumes "r \<noteq> ag" and "agg_terminal ag evs"
    and "run r ag evs (initial_graph r ag) = Some tr"
  shows "ready_count ag tr \<le> 1
     \<and> (\<forall>pre s s' post. tr = pre @ s # s' # post \<and> becomes_ready ag s s' \<longrightarrow>
          frontier_closed s' r ag
          \<and> (\<forall>t \<in> set (s' # post). map node_id t = map node_id s' \<and> others_completed ag t))
     \<and> (others_completed ag (last tr) \<longrightarrow> ready_count ag tr = 1)"
  using run_waiting [OF sound_graph_initial [OF assms(1)] waiting_initial [OF assms(1)]
      assms(2,3)]
  unfolding ready_once_def .

lemma two_rounds_runs: "run 0 1 two_rounds (initial_graph 0 1) \<noteq> None"
  by code_simp

lemma two_rounds_completes:
  "others_completed 1 (last (the (run 0 1 two_rounds (initial_graph 0 1))))"
  by code_simp

theorem aggregation_ready_once_witness:
  "(0::nat) \<noteq> 1 \<and> agg_terminal 1 two_rounds
   \<and> run 0 1 two_rounds (initial_graph 0 1) \<noteq> None
   \<and> others_completed 1 (last (the (run 0 1 two_rounds (initial_graph 0 1))))
   \<and> ready_count 1 (the (run 0 1 two_rounds (initial_graph 0 1))) = 1"
proof -
  have t: "agg_terminal 1 two_rounds"
    by code_simp
  from two_rounds_runs have r:
    "run 0 1 two_rounds (initial_graph 0 1) = Some (the (run 0 1 two_rounds (initial_graph 0 1)))"
    by simp
  from aggregation_ready_once [OF _ t r] two_rounds_completes two_rounds_runs t
  show ?thesis
    by simp
qed

end
